(* ===== verification/Prelude.thy ===== *)
theory Prelude
  imports Main "HOL-Library.Word"
begin

section \<open>Shared types, errors and generic lemmas\<close>

text \<open>
  The types every component uses and the lemmas they share. A C++ \<open>char\<close> is a HOL
  \<open>char\<close> (eight bits, so a \<open>string\<close> is a byte string that may hold NULs); a
  \<open>uint8_t\<close> is an \<open>8 word\<close>; \<open>uint64_t\<close>, \<open>size_t\<close> values that can wrap
  and \<open>address_t\<close> are \<open>64 word\<close>. The platform is the one the proxy is built on
  (x86-64, GCC): \<open>char\<close> is signed and integers are little endian.

  Every way a C++ function can stop without a result is a value of \<open>cxx_error\<close>:
  the exceptions it throws, a failed \<open>assert\<close>, and an operation whose behaviour the
  language leaves undefined (an access outside a container, a dangling reference).
\<close>

type_synonym byte = "8 word"
type_synonym u32 = "32 word"
type_synonym u64 = "64 word"

datatype cxx_error =
    Out_Of_Range        \<comment> \<open>std::out_of_range\<close>
  | Invalid_Argument    \<comment> \<open>std::invalid_argument\<close>
  | Length_Error        \<comment> \<open>std::length_error\<close>
  | System_Error        \<comment> \<open>std::system_error\<close>
  | Assertion_Failed    \<comment> \<open>assert\<close>
  | Undefined           \<comment> \<open>undefined behaviour\<close>

type_synonym 'a res = "cxx_error + 'a"

named_theorems res_iff \<open>when a computation that may fail returns a value\<close>

subsection \<open>Sequencing computations that may fail\<close>

definition bind_res :: "'a res \<Rightarrow> ('a \<Rightarrow> 'b res) \<Rightarrow> 'b res" where
  "bind_res m f = (case m of Inl e \<Rightarrow> Inl e | Inr x \<Rightarrow> f x)"

lemma bind_res_simps [simp]:
  "bind_res (Inl e) f = Inl e"
  "bind_res (Inr x) f = f x"
  by (simp_all add: bind_res_def)

lemma bind_res_Inr_iff [res_iff]:
  "bind_res m f = Inr y \<longleftrightarrow> (\<exists>x. m = Inr x \<and> f x = Inr y)"
  by (cases m) auto

lemma bind_res_assoc: "bind_res (bind_res m f) g = bind_res m (\<lambda>x. bind_res (f x) g)"
  by (cases m) auto

lemma bind_res_return [simp]: "bind_res m Inr = m"
  by (cases m) auto

lemma bind_res_cong [fundef_cong]:
  "m = m' \<Longrightarrow> (\<And>x. m' = Inr x \<Longrightarrow> f x = f' x) \<Longrightarrow> bind_res m f = bind_res m' f'"
  by (cases m') auto

lemma if_Inr_iff [res_iff]:
  "(if b then Inl e else m) = Inr x \<longleftrightarrow> \<not> b \<and> m = Inr x"
  "(if b then m else Inl e) = Inr x \<longleftrightarrow> b \<and> m = Inr x"
  by auto

subsection \<open>Characters as bytes\<close>

definition ord8 :: "char \<Rightarrow> byte" where
  "ord8 c = of_char c"

definition chr8 :: "byte \<Rightarrow> char" where
  "chr8 b = char_of (unat b)"

text \<open>The value of a \<open>char\<close> after the integral promotion to \<open>int\<close>.\<close>

definition schar :: "char \<Rightarrow> int" where
  "schar c = sint (ord8 c)"

lemma unat_ord8 [simp]: "unat (ord8 c) = of_char c"
proof -
  have "ord8 c = of_nat (of_char c)"
    by (simp add: ord8_def of_nat_of_char)
  moreover have "of_char c < (256 :: nat)" by simp
  ultimately show ?thesis by (simp add: unat_of_nat)
qed

lemma chr8_ord8 [simp]: "chr8 (ord8 c) = c"
  by (simp add: chr8_def)

lemma ord8_chr8 [simp]: "ord8 (chr8 b) = b"
proof -
  have "unat b < 2 ^ LENGTH(8)" by (rule unsigned_less)
  then have "unat b < 256" by simp
  then have "unat (ord8 (chr8 b)) = unat b" by (simp add: chr8_def)
  then show ?thesis by (rule unsigned_word_eqI)
qed

lemma ord8_inj [simp]: "ord8 c = ord8 d \<longleftrightarrow> c = d"
  by (metis chr8_ord8)

lemma schar_ascii: "(of_char c :: nat) < 128 \<Longrightarrow> schar c = int (of_char c)"
proof -
  assume a: "(of_char c :: nat) < 128"
  have "uint (ord8 c) = int (of_char c)"
    by (simp add: uint_nat)
  with a show ?thesis
    by (simp add: schar_def sint_uint signed_take_bit_int_eq_self)
qed

subsection \<open>Lists\<close>

lemma takeWhile_append_stop:
  "\<forall>x\<in>set xs. P x \<Longrightarrow> \<not> P y \<Longrightarrow> takeWhile P (xs @ y # ys) = xs"
  by simp

lemma dropWhile_append_stop:
  "\<forall>x\<in>set xs. P x \<Longrightarrow> \<not> P y \<Longrightarrow> dropWhile P (xs @ y # ys) = y # ys"
  by simp

subsection \<open>The contract of an encoding\<close>

text \<open>
  What the components that write a text and read it back promise each other: on the values of
  \<open>ok\<close>, decoding what was encoded gives the value back. A framed encoding can be read off the
  front of a longer text.
\<close>

locale codec =
  fixes enc :: "'a \<Rightarrow> 'b list"
    and dec :: "'b list \<Rightarrow> 'a option"
    and ok :: "'a \<Rightarrow> bool"
  assumes dec_enc: "ok x \<Longrightarrow> dec (enc x) = Some x"
begin

lemma enc_eq_iff: "ok x \<Longrightarrow> ok y \<Longrightarrow> enc x = enc y \<longleftrightarrow> x = y"
  by (metis dec_enc option.inject)

end

locale framed_codec =
  fixes enc :: "'a \<Rightarrow> 'b list"
    and split :: "'b list \<Rightarrow> ('a \<times> 'b list) option"
    and ok :: "'a \<Rightarrow> bool"
  assumes split_enc: "ok x \<Longrightarrow> split (enc x @ rest) = Some (x, rest)"
begin

lemma frames_unique:
  "\<forall>x\<in>set xs. ok x \<Longrightarrow> \<forall>y\<in>set ys. ok y \<Longrightarrow> length xs = length ys \<Longrightarrow>
     concat (map enc xs) = concat (map enc ys) \<Longrightarrow> xs = ys"
proof (induction xs arbitrary: ys)
  case Nil
  then show ?case by simp
next
  case (Cons x xs)
  from Cons.prems(3) obtain y ys' where ys: "ys = y # ys'" by (cases ys) auto
  let ?r = "concat (map enc xs)" and ?s = "concat (map enc ys')"
  from Cons.prems(4) ys have "split (enc x @ ?r) = split (enc y @ ?s)" by simp
  with Cons.prems(1,2) ys have "x = y" and "?r = ?s"
    using split_enc [of x ?r] split_enc [of y ?s] by simp_all
  with Cons.IH [of ys'] Cons.prems(1-3) ys show ?case by simp
qed

end

sublocale framed_codec \<subseteq> codec enc "\<lambda>s. map_option fst (split s)" ok
  by unfold_locales (use split_enc [of _ "[]"] in simp)

end
