(* ===== verification/Cstdlib.thy ===== *)
theory Cstdlib
  imports Prelude "HOL-Library.Sublist"
begin

section \<open>The C and C++ library functions the sources call\<close>

text \<open>
  \<open>std::string_view\<close> access, search and comparison, the hexadecimal conversions of
  \<open>strtoull\<close>, \<open>std::stoull\<close> and \<open>std::stoi\<close> (base 16) and of \<open>snprintf\<close>
  (the conversions \<open>x\<close> and \<open>02x\<close>), as the sources use them. These functions belong to the
  language's library; no definition here is mapped to a file of the repository.
\<close>

subsection \<open>string\_view\<close>

text \<open>\<open>operator[]\<close> is unchecked; \<open>at\<close>, \<open>substr\<close> and \<open>compare\<close> throw.\<close>

definition sv_index :: "string \<Rightarrow> nat \<Rightarrow> char res" where
  "sv_index s i = (if i < length s then Inr (s ! i) else Inl Undefined)"

definition sv_at :: "string \<Rightarrow> nat \<Rightarrow> char res" where
  "sv_at s i = (if i < length s then Inr (s ! i) else Inl Out_Of_Range)"

definition sv_substr :: "string \<Rightarrow> nat \<Rightarrow> string res" where
  "sv_substr s pos = (if pos \<le> length s then Inr (drop pos s) else Inl Out_Of_Range)"

definition sv_substr_n :: "string \<Rightarrow> nat \<Rightarrow> nat \<Rightarrow> string res" where
  "sv_substr_n s pos n =
     (if pos \<le> length s then Inr (take n (drop pos s)) else Inl Out_Of_Range)"

text \<open>\<open>s.compare(pos, n, t) == 0\<close>\<close>

definition sv_compare_eq :: "string \<Rightarrow> nat \<Rightarrow> nat \<Rightarrow> string \<Rightarrow> bool res" where
  "sv_compare_eq s pos n t =
     (if pos \<le> length s then Inr (take n (drop pos s) = t) else Inl Out_Of_Range)"

definition sv_find :: "string \<Rightarrow> char \<Rightarrow> nat \<Rightarrow> nat option" where
  "sv_find s c pos =
     (if c \<in> set (drop pos s)
      then Some (pos + length (takeWhile (\<lambda>x. x \<noteq> c) (drop pos s))) else None)"

definition sv_contains :: "string \<Rightarrow> string \<Rightarrow> bool" where
  "sv_contains s t = sublist t s"

lemma sv_compare_eq_0 [simp]: "sv_compare_eq s 0 n t = Inr (take n s = t)"
  by (simp add: sv_compare_eq_def)

lemma sv_substr_0 [simp]: "sv_substr s 0 = Inr s"
  by (simp add: sv_substr_def)

lemma sv_find_bounds:
  assumes "sv_find s c pos = Some e"
  shows "pos \<le> e" and "e < length s" and "s ! e = c"
    and "\<forall>i. pos \<le> i \<and> i < e \<longrightarrow> s ! i \<noteq> c"
proof -
  let ?t = "takeWhile (\<lambda>x. x \<noteq> c) (drop pos s)"
  from assms have mem: "c \<in> set (drop pos s)" and e: "e = pos + length ?t"
    by (auto simp: sv_find_def split: if_splits)
  from mem have lt: "length ?t < length (drop pos s)"
    by (metis (mono_tags, lifting) length_takeWhile_le nless_le takeWhile_eq_all_conv
        takeWhile_eq_take take_all_iff)
  show "pos \<le> e" using e by simp
  show el: "e < length s" using e lt by simp
  have "\<not> drop pos s ! length ?t \<noteq> c"
    using nth_length_takeWhile [OF lt] .
  then show "s ! e = c" using e el by simp
  show "\<forall>i. pos \<le> i \<and> i < e \<longrightarrow> s ! i \<noteq> c"
  proof (intro allI impI)
    fix i assume i: "pos \<le> i \<and> i < e"
    then have "?t ! (i - pos) \<in> set ?t" using e by (intro nth_mem) arith
    then have "?t ! (i - pos) \<noteq> c" by (metis (mono_tags, lifting) set_takeWhileD)
    moreover have "?t ! (i - pos) = drop pos s ! (i - pos)"
      using i e by (intro takeWhile_nth) arith
    ultimately show "s ! i \<noteq> c" using i el by simp
  qed
qed

lemma sv_find_decreases:
  "sv_find s c pos = Some e \<Longrightarrow> length s - Suc e < length s - pos"
  using sv_find_bounds(1,2) [of s c pos e] by arith

subsection \<open>Hexadecimal digits\<close>

definition hexval :: "char \<Rightarrow> nat option" where
  "hexval c =
     (let n = of_char c in
      if 48 \<le> n \<and> n \<le> 57 then Some (n - 48)
      else if 97 \<le> n \<and> n \<le> 102 then Some (n - 87)
      else if 65 \<le> n \<and> n \<le> 70 then Some (n - 55)
      else None)"

definition hex_digit :: "nat \<Rightarrow> char" where
  "hex_digit n = ''0123456789abcdef'' ! n"

definition is_hex :: "char \<Rightarrow> bool" where
  "is_hex c = (hexval c \<noteq> None)"

lemma hexval_hex_digit [simp]: "n < 16 \<Longrightarrow> hexval (hex_digit n) = Some n"
proof -
  have "\<forall>n\<in>set [0..<16]. hexval (hex_digit n) = Some n" by code_simp
  then show "n < 16 \<Longrightarrow> hexval (hex_digit n) = Some n" by simp
qed

lemma is_hex_digit [simp]: "n < 16 \<Longrightarrow> is_hex (hex_digit n)"
  by (simp add: is_hex_def)

lemma hexval_bound: "hexval c = Some n \<Longrightarrow> n < 16"
  by (auto simp: hexval_def Let_def split: if_splits)

definition hex_value :: "string \<Rightarrow> nat" where
  "hex_value s = foldl (\<lambda>a c. 16 * a + the (hexval c)) 0 s"

lemma hex_value_snoc [simp]: "hex_value (s @ [c]) = 16 * hex_value s + the (hexval c)"
  by (simp add: hex_value_def)

lemma hex_value_Nil [simp]: "hex_value [] = 0"
  by (simp add: hex_value_def)

subsection \<open>snprintf\<close>

text \<open>\<open>%x\<close>: lower-case digits, no leading zero, \<open>0\<close> for zero.\<close>

fun hex_str :: "nat \<Rightarrow> string" where
  "hex_str n = (if n < 16 then [hex_digit n] else hex_str (n div 16) @ [hex_digit (n mod 16)])"

declare hex_str.simps [simp del]

text \<open>\<open>%02x\<close> of a byte.\<close>

definition hex_byte :: "byte \<Rightarrow> string" where
  "hex_byte b = [hex_digit (unat b div 16), hex_digit (unat b mod 16)]"

lemma hex_str_not_Nil [simp]: "hex_str n \<noteq> []"
  by (subst hex_str.simps) simp

lemma hex_str_is_hex: "\<forall>c\<in>set (hex_str n). \<exists>k<16. c = hex_digit k"
proof (induction n rule: hex_str.induct)
  case (1 n)
  show ?case
  proof (cases "n < 16")
    case True
    then show ?thesis by (subst hex_str.simps) auto
  next
    case False
    with 1 have IH: "\<forall>c\<in>set (hex_str (n div 16)). \<exists>k<16. c = hex_digit k" by simp
    have "\<exists>k<16. hex_digit (n mod 16) = hex_digit k"
      by (rule exI [where x = "n mod 16"]) simp
    with IH False show ?thesis by (subst hex_str.simps) auto
  qed
qed

lemma hex_str_all_hex: "c \<in> set (hex_str n) \<Longrightarrow> is_hex c"
  using hex_str_is_hex [of n] by auto

lemma hex_value_hex_str [simp]: "hex_value (hex_str n) = n"
proof (induction n rule: hex_str.induct)
  case (1 n)
  show ?case
  proof (cases "n < 16")
    case True
    then show ?thesis by (subst hex_str.simps) (simp add: hex_value_def)
  next
    case False
    then show ?thesis using 1 by (subst hex_str.simps) simp
  qed
qed

lemma length_hex_str_le: "0 < k \<Longrightarrow> n < 16 ^ k \<Longrightarrow> length (hex_str n) \<le> k"
proof (induction n arbitrary: k rule: hex_str.induct)
  case (1 n)
  show ?case
  proof (cases "n < 16")
    case True
    with "1.prems" show ?thesis by (subst hex_str.simps) simp
  next
    case False
    with "1.prems" obtain j where k: "k = Suc (Suc j)"
      by (metis One_nat_def less_not_refl not0_implies_Suc power_one_right)
    with "1.prems" have "n div 16 < 16 ^ Suc j"
      by (simp add: less_mult_imp_div_less)
    with "1.IH" [OF False, of "Suc j"] k False show ?thesis
      by (subst hex_str.simps) simp
  qed
qed

subsection \<open>strtoull, stoull and stoi in base 16\<close>

definition is_space :: "char \<Rightarrow> bool" where
  "is_space c = (c = CHR '' '' \<or> (9 \<le> (of_char c :: nat) \<and> of_char c \<le> (13 :: nat)))"

definition strto16_sign :: "string \<Rightarrow> bool \<times> string" where
  "strto16_sign s =
     (case s of
        [] \<Rightarrow> (False, [])
      | c # r \<Rightarrow> if c = CHR ''-'' then (True, r) else if c = CHR ''+'' then (False, r)
                else (False, s))"

definition strto16_prefix :: "string \<Rightarrow> string" where
  "strto16_prefix s =
     (case s of
        z # x # d # r \<Rightarrow>
          if z = CHR ''0'' \<and> (x = CHR ''x'' \<or> x = CHR ''X'') \<and> is_hex d then d # r else s
      | _ \<Rightarrow> s)"

text \<open>
  The common part: leading white space, a sign, an optional \<open>0x\<close>, then the longest run of
  digits. \<open>None\<close> when there is no digit; otherwise the sign and the magnitude.
\<close>

definition strto16 :: "string \<Rightarrow> (bool \<times> nat) option" where
  "strto16 s =
     (let (neg, r) = strto16_sign (dropWhile is_space s);
          ds = takeWhile is_hex (strto16_prefix r)
      in if ds = [] then None else Some (neg, hex_value ds))"

text \<open>\<open>std::stoull\<close>: throws when there is no digit or the value needs more than 64 bits.\<close>

definition stoull16 :: "string \<Rightarrow> u64 res" where
  "stoull16 s =
     (case strto16 s of
        None \<Rightarrow> Inl Invalid_Argument
      | Some (neg, m) \<Rightarrow>
          if m < 2 ^ 64 then Inr (if neg then - of_nat m else of_nat m) else Inl Out_Of_Range)"

text \<open>
  \<open>strtoull\<close>: the value and whether it set \<open>errno\<close> to \<open>ERANGE\<close>.
\<close>

definition strtoull16 :: "string \<Rightarrow> u64 \<times> bool" where
  "strtoull16 s =
     (case strto16 s of
        None \<Rightarrow> (0, False)
      | Some (neg, m) \<Rightarrow>
          if m < 2 ^ 64 then (if neg then - of_nat m else of_nat m, False) else (- 1, True))"

text \<open>\<open>std::stoi\<close>\<close>

definition stoi16 :: "string \<Rightarrow> int res" where
  "stoi16 s =
     (case strto16 s of
        None \<Rightarrow> Inl Invalid_Argument
      | Some (neg, m) \<Rightarrow>
          let v = (if neg then - int m else int m)
          in if - (2 ^ 31) \<le> v \<and> v < 2 ^ 31 then Inr v else Inl Out_Of_Range)"

lemma hex_not_special:
  "is_hex c \<Longrightarrow> \<not> is_space c \<and> c \<noteq> CHR ''-'' \<and> c \<noteq> CHR ''+'' \<and> c \<noteq> CHR ''x''
     \<and> c \<noteq> CHR ''X'' \<and> c \<noteq> CHR ''.'' \<and> c \<noteq> CHR ''p'' \<and> c \<noteq> CHR '','' \<and> c \<noteq> CHR ''#''
     \<and> c \<noteq> CHR ''*''"
  by (auto simp: is_hex_def hexval_def is_space_def Let_def split: if_splits)

text \<open>A string of digits, followed by something that is not one, is read as its value.\<close>

lemma strto16_digits:
  assumes "ds \<noteq> []" and "\<forall>c\<in>set ds. is_hex c" and "rest = [] \<or> \<not> is_hex (hd rest)"
    and "rest = [] \<or> hd rest \<noteq> CHR ''x'' \<and> hd rest \<noteq> CHR ''X''"
  shows "strto16 (ds @ rest) = Some (False, hex_value ds)"
proof -
  from assms(1) obtain d ds' where ds: "ds = d # ds'" by (cases ds) auto
  with assms(2) have d: "is_hex d" by simp
  have 1: "dropWhile is_space (ds @ rest) = ds @ rest"
    using hex_not_special [OF d] ds by simp
  have 2: "strto16_sign (ds @ rest) = (False, ds @ rest)"
    using hex_not_special [OF d] ds by (simp add: strto16_sign_def)
  have x: "\<forall>z y r. ds @ rest = z # y # r \<longrightarrow> y \<noteq> CHR ''x'' \<and> y \<noteq> CHR ''X''"
    using assms(2,4) ds hex_not_special by (cases ds'; cases rest) auto
  then have 3: "strto16_prefix (ds @ rest) = ds @ rest"
    by (auto simp: strto16_prefix_def split: list.splits)
  have 4: "takeWhile is_hex (ds @ rest) = ds"
    using assms(2,3) by (cases rest) auto
  show ?thesis using assms(1) by (simp add: strto16_def 1 2 3 4)
qed

lemma strto16_hex_str [simp]: "strto16 (hex_str n) = Some (False, n)"
  using strto16_digits [of "hex_str n" "[]"] hex_str_all_hex by simp

end
