(* ===== verification/Gdb_Packet.thy ===== *)
theory Gdb_Packet
  imports Cstdlib
begin

section \<open>The packet parser (gdb-packet.h, gdb-packet.cpp)\<close>

text \<open>
  \<open>gdb_packet\<close> is an incremental parser of one packet of the GDB remote protocol and the
  buffer of what it has parsed. The record has the class's three members. \<open>parse\<close> returns
  the packet after the call and the number of bytes consumed; the exceptions and the undefined
  reads of the code are \<open>Inl\<close> results. Capacity is not part of the state: the only
  observable effect of \<open>reserve\<close> is the \<open>std::length_error\<close> it throws.

  Lemmas: the invariant \<open>pkt_inv\<close> of every state the class can reach, the independence of the
  result from how the input is cut into chunks, the meaning of a well-formed packet against the
  protocol's grammar with its run-length coding, and the packets \<open>finalize\<close> builds.
\<close>

subsection \<open>State\<close>

datatype gdb_packet_type = Pt_invalid | Pt_ack | Pt_nak | Pt_brk | Pt_dat

datatype pstate = St_invalid | St_data | St_run_length_coding | St_crc | St_complete

record gdb_packet =
  m_data :: string
  m_state :: pstate
  m_csum :: byte

definition empty_packet :: gdb_packet where
  "empty_packet = \<lparr>m_data = [], m_state = St_invalid, m_csum = 0\<rparr>"

subsection \<open>Observers\<close>

definition pkt_type :: "gdb_packet \<Rightarrow> gdb_packet_type" where
  "pkt_type p =
     (case m_data p of
        [] \<Rightarrow> Pt_invalid
      | c # _ \<Rightarrow>
          if c = CHR ''$'' then Pt_dat
          else if c = CHR ''+'' then Pt_ack
          else if c = CHR ''-'' then Pt_nak
          else if c = CHR 0x03 then Pt_brk
          else Pt_invalid)"

definition is_complete :: "gdb_packet \<Rightarrow> bool" where
  "is_complete p = (m_state p = St_complete)"

definition is_invalid :: "gdb_packet \<Rightarrow> bool" where
  "is_invalid p = (m_state p = St_invalid)"

text \<open>The payload, without the leading \<open>$\<close> and the three bytes of the checksum.\<close>

definition pkt_data :: "gdb_packet \<Rightarrow> string" where
  "pkt_data p =
     (if m_state p \<noteq> St_complete \<or> pkt_type p \<noteq> Pt_dat then []
      else take (length (m_data p) - 1 - 3) (drop 1 (m_data p)))"

definition raw_data :: "gdb_packet \<Rightarrow> string" where
  "raw_data p = (if m_state p = St_invalid then [] else m_data p)"

text \<open>
  The guard is the code's: it leaves only when the packet is neither a data packet nor complete.
  The two bytes before the buffer's end are read unchecked.
\<close>

definition data_crc :: "gdb_packet \<Rightarrow> byte res" where
  "data_crc p =
     (if pkt_type p \<noteq> Pt_dat \<and> m_state p \<noteq> St_complete then Inr 0
      else if length (m_data p) < 2 then Inl Undefined
      else bind_res (stoi16 (drop (length (m_data p) - 2) (m_data p))) (\<lambda>v. Inr (of_int v)))"

definition calc_crc :: "gdb_packet \<Rightarrow> byte" where
  "calc_crc p = m_csum p"

subsection \<open>parse\<close>

text \<open>\<open>std::vector<char>::max_size()\<close>\<close>

definition vector_max_size :: int where
  "vector_max_size = 2 ^ 63 - 1"

text \<open>
  One iteration of the loop, in the state after \<open>m_data.push_back(ch)\<close>: the new packet and
  whether the function returns here. A negative run count makes \<open>size_t(count) - 2\<close> wrap, so
  \<open>reserve\<close> is asked for \<open>(size + count - 2) mod 2^64\<close>.
\<close>

definition parse_char :: "gdb_packet \<Rightarrow> char \<Rightarrow> (gdb_packet \<times> bool) res" where
  "parse_char p ch =
     (let d = m_data p @ [ch] in
      case m_state p of
        St_data \<Rightarrow>
          if ch = CHR ''#'' then Inr (p\<lparr>m_data := d, m_state := St_crc\<rparr>, False)
          else if ch = CHR ''*''
          then Inr (p\<lparr>m_data := butlast d, m_csum := m_csum p + ord8 ch,
                      m_state := St_run_length_coding\<rparr>, False)
          else Inr (p\<lparr>m_data := d, m_csum := m_csum p + ord8 ch\<rparr>, False)
      | St_run_length_coding \<Rightarrow>
          let d' = butlast d; count = schar ch - 32 + 3 in
          if d' = [] then Inl Undefined
          else if (int (length d') + count - 2) mod 2 ^ 64 > vector_max_size then Inl Length_Error
          else Inr (p\<lparr>m_data := d' @ replicate (nat count) (last d'),
                      m_csum := m_csum p + ord8 ch, m_state := St_data\<rparr>, False)
      | St_crc \<Rightarrow>
          if length d < 3 then Inl Undefined
          else if d ! (length d - 2 - 1) = CHR ''#''
          then Inr (p\<lparr>m_data := d, m_state := St_complete\<rparr>, True)
          else Inr (p\<lparr>m_data := d\<rparr>, False)
      | _ \<Rightarrow> Inr (p\<lparr>m_data := d\<rparr>, False))"

fun parse_loop :: "gdb_packet \<Rightarrow> string \<Rightarrow> nat \<Rightarrow> (gdb_packet \<times> nat) res" where
  "parse_loop p [] n = Inr (p, n)"
| "parse_loop p (ch # rest) n =
     bind_res (parse_char p ch)
       (\<lambda>(p', fin). if fin then Inr (p', Suc n) else parse_loop p' rest (Suc n))"

text \<open>
  In the \<open>invalid\<close> state the first byte is read before the size is looked at, so an empty
  input there is an access past its end.
\<close>

definition packet_start :: "char \<Rightarrow> bool" where
  "packet_start c = (c = CHR ''$'' \<or> c = CHR ''+'' \<or> c = CHR ''-'' \<or> c = CHR 0x03)"

definition parse :: "gdb_packet \<Rightarrow> string \<Rightarrow> (gdb_packet \<times> nat) res" where
  "parse p view =
     (if m_state p = St_complete then Inr (p, 0)
      else if is_invalid p
      then (case view of
              [] \<Rightarrow> Inl Undefined
            | c # rest \<Rightarrow>
                if packet_start c
                then let p1 = p\<lparr>m_data := m_data p @ [c], m_state := St_data\<rparr>
                     in if hd (m_data p1) \<noteq> CHR ''$'' then Inr (p1\<lparr>m_state := St_complete\<rparr>, 1)
                        else parse_loop p1 rest 1
                else Inr (p, 0))
      else parse_loop p view 0)"

subsection \<open>finalize, reset and the constructors\<close>

definition finalize :: "gdb_packet \<Rightarrow> (gdb_packet \<times> bool) res" where
  "finalize p =
     (if pkt_type p \<noteq> Pt_dat then Inr (p, False)
      else if m_state p \<noteq> St_data then Inr (p, False)
      else bind_res (parse p (CHR ''#'' # hex_byte (m_csum p))) (\<lambda>(p', n). Inr (p', n = 3)))"

definition reset :: "gdb_packet \<Rightarrow> gdb_packet" where
  "reset p = p\<lparr>m_data := [], m_state := St_invalid, m_csum := 0\<rparr>"

definition packet_of_type :: "gdb_packet_type \<Rightarrow> gdb_packet res" where
  "packet_of_type t =
     (let go = (\<lambda>c. bind_res (parse empty_packet [c]) (\<lambda>(p, n). Inr p)) in
      case t of
        Pt_ack \<Rightarrow> go (CHR ''+'')
      | Pt_nak \<Rightarrow> go (CHR ''-'')
      | Pt_brk \<Rightarrow> go (CHR 0x03)
      | Pt_dat \<Rightarrow> go (CHR ''$'')
      | Pt_invalid \<Rightarrow> Inr empty_packet)"

definition packet_ack :: "gdb_packet res" where
  "packet_ack = packet_of_type Pt_ack"

definition packet_nak :: "gdb_packet res" where
  "packet_nak = packet_of_type Pt_nak"

definition packet_break :: "gdb_packet res" where
  "packet_break = packet_of_type Pt_brk"

definition packet_data :: "gdb_packet res" where
  "packet_data = packet_of_type Pt_dat"

definition packet_empty :: "gdb_packet res" where
  "packet_empty =
     bind_res (packet_of_type Pt_dat) (\<lambda>p. bind_res (finalize p) (\<lambda>(p', ok). Inr p'))"

subsection \<open>The loop: append, progress and bounds\<close>

definition active :: "gdb_packet \<Rightarrow> bool" where
  "active p = (m_state p = St_data \<or> m_state p = St_run_length_coding \<or> m_state p = St_crc)"

lemma parse_active: "active p \<Longrightarrow> parse p view = parse_loop p view 0"
  by (auto simp: parse_def active_def is_invalid_def)

lemma state_trichotomy: "m_state p = St_invalid \<or> m_state p = St_complete \<or> active p"
  by (cases "m_state p") (simp_all add: active_def)

lemma parse_char_state:
  "active p \<Longrightarrow> parse_char p ch = Inr (p', fin) \<Longrightarrow>
     (if fin then m_state p' = St_complete else active p')"
  by (auto simp: parse_char_def active_def Let_def split: pstate.splits if_splits)

lemma parse_loop_shift:
  "parse_loop p view (n + k) = bind_res (parse_loop p view n) (\<lambda>(p', m). Inr (p', m + k))"
proof (induction view arbitrary: p n)
  case Nil
  then show ?case by simp
next
  case (Cons ch rest)
  show ?case
  proof (cases "parse_char p ch")
    case (Inl e)
    then show ?thesis by simp
  next
    case (Inr r)
    obtain p' fin where r: "r = (p', fin)" by (cases r)
    show ?thesis using Cons.IH [of p' "Suc n"] Inr r by simp
  qed
qed

lemma parse_loop_state:
  "active p \<Longrightarrow> parse_loop p view n = Inr (p', m) \<Longrightarrow>
     n \<le> m \<and> m \<le> n + length view \<and> (m_state p' = St_complete \<or> active p' \<and> m = n + length view)"
proof (induction view arbitrary: p n)
  case Nil
  then show ?case by simp
next
  case (Cons ch rest)
  from Cons.prems obtain p1 fin where pc: "parse_char p ch = Inr (p1, fin)"
    by (cases "parse_char p ch") auto
  note st = parse_char_state [OF Cons.prems(1) pc]
  show ?case
  proof (cases fin)
    case True
    with Cons.prems pc st show ?thesis by auto
  next
    case False
    with Cons.prems pc st have "active p1" "parse_loop p1 rest (Suc n) = Inr (p', m)" by auto
    from Cons.IH [OF this] show ?thesis by auto
  qed
qed

lemma parse_loop_append:
  "active p \<Longrightarrow> parse_loop p (xs @ ys) n =
     bind_res (parse_loop p xs n)
       (\<lambda>(p', m). if m_state p' = St_complete then Inr (p', m) else parse_loop p' ys m)"
proof (induction xs arbitrary: p n)
  case Nil
  then show ?case by (auto simp: active_def)
next
  case (Cons ch rest)
  show ?case
  proof (cases "parse_char p ch")
    case (Inl e)
    then show ?thesis by simp
  next
    case (Inr r)
    obtain p' fin where r: "r = (p', fin)" by (cases r)
    note st = parse_char_state [OF Cons.prems Inr [unfolded r]]
    show ?thesis
    proof (cases fin)
      case True
      with Inr r st show ?thesis by simp
    next
      case False
      with st have "active p'" by simp
      from Cons.IH [OF this, of "Suc n"] Inr r False show ?thesis by simp
    qed
  qed
qed

lemma parse_start:
  assumes "m_state p = St_invalid" and "parse p xs = Inr (p', n)" and "m_state p' \<noteq> St_invalid"
  obtains c rest where "xs = c # rest" and "packet_start c"
    and "\<And>ys. parse p (c # ys) =
      (let p1 = p\<lparr>m_data := m_data p @ [c], m_state := St_data\<rparr>
       in if hd (m_data p1) \<noteq> CHR ''$'' then Inr (p1\<lparr>m_state := St_complete\<rparr>, 1)
          else parse_loop p1 ys 1)"
proof (cases xs)
  case Nil
  with assms(1,2) show ?thesis by (simp add: parse_def is_invalid_def)
next
  case (Cons c rest)
  with assms have "packet_start c"
    by (auto simp: parse_def is_invalid_def split: if_splits)
  with assms(1) show ?thesis
    by (intro that [of c rest, OF Cons]) (auto simp: parse_def is_invalid_def)
qed

text \<open>A prefix that leaves the packet unfinished: the rest continues where it stopped.\<close>

lemma parse_append_active:
  assumes "parse p xs = Inr (p', n)" and "active p'"
  shows "parse p (xs @ ys) = bind_res (parse p' ys) (\<lambda>(p'', m). Inr (p'', m + n))"
    and "n = length xs"
proof -
  have ya: "parse_loop p' ys n = bind_res (parse p' ys) (\<lambda>(p'', m). Inr (p'', m + n))"
    using parse_loop_shift [of p' ys 0 n] parse_active [OF assms(2)] by simp
  have "m_state p \<noteq> St_complete"
    using assms by (auto simp: parse_def active_def)
  then consider "active p" | "m_state p = St_invalid"
    using state_trichotomy [of p] by auto
  then have "parse p (xs @ ys) = parse_loop p' ys n \<and> n = length xs"
  proof cases
    case 1
    with assms have l: "parse_loop p xs 0 = Inr (p', n)" by (simp add: parse_active)
    from parse_loop_state [OF 1 l] assms(2) have "n = length xs"
      by (auto simp: active_def)
    with l assms(2) show ?thesis
      using parse_loop_append [OF 1, of xs ys 0] by (auto simp: parse_active [OF 1] active_def)
  next
    case 2
    from assms(2) have ni: "m_state p' \<noteq> St_invalid" by (auto simp: active_def)
    obtain c rest where xs: "xs = c # rest" and eq: "\<And>ys. parse p (c # ys) =
      (let p1 = p\<lparr>m_data := m_data p @ [c], m_state := St_data\<rparr>
       in if hd (m_data p1) \<noteq> CHR ''$'' then Inr (p1\<lparr>m_state := St_complete\<rparr>, 1)
          else parse_loop p1 ys 1)"
      using parse_start [OF 2 assms(1) ni] by metis
    define p1 where "p1 = p\<lparr>m_data := m_data p @ [c], m_state := St_data\<rparr>"
    have a1: "active p1" by (simp add: p1_def active_def)
    from assms xs eq [of rest] have h: "hd (m_data p1) = CHR ''$''"
      and l: "parse_loop p1 rest 1 = Inr (p', n)"
      by (auto simp: Let_def p1_def active_def split: if_splits)
    from parse_loop_state [OF a1 l] assms(2) xs have n: "n = length xs"
      by (auto simp: active_def)
    from parse_loop_append [OF a1, of rest ys 1] l assms(2) eq [of "rest @ ys"] h xs n
    show ?thesis by (auto simp: Let_def p1_def [symmetric] active_def)
  qed
  with ya show "parse p (xs @ ys) = bind_res (parse p' ys) (\<lambda>(p'', m). Inr (p'', m + n))"
    and "n = length xs" by simp_all
qed

text \<open>A prefix that completes the packet: nothing after it is looked at.\<close>

lemma parse_append_complete:
  assumes "parse p xs = Inr (p', n)" and "m_state p' = St_complete" and "m_state p \<noteq> St_complete"
  shows "parse p (xs @ ys) = Inr (p', n)"
proof -
  from assms(3) consider "active p" | "m_state p = St_invalid"
    using state_trichotomy [of p] by auto
  then show ?thesis
  proof cases
    case 1
    with assms(1) have l: "parse_loop p xs 0 = Inr (p', n)" by (simp add: parse_active)
    with assms(2) show ?thesis
      using parse_loop_append [OF 1, of xs ys 0] by (simp add: parse_active [OF 1])
  next
    case 2
    from assms(2) have ni: "m_state p' \<noteq> St_invalid" by simp
    obtain c rest where xs: "xs = c # rest" and eq: "\<And>ys. parse p (c # ys) =
      (let p1 = p\<lparr>m_data := m_data p @ [c], m_state := St_data\<rparr>
       in if hd (m_data p1) \<noteq> CHR ''$'' then Inr (p1\<lparr>m_state := St_complete\<rparr>, 1)
          else parse_loop p1 ys 1)"
      using parse_start [OF 2 assms(1) ni] by metis
    define p1 where "p1 = p\<lparr>m_data := m_data p @ [c], m_state := St_data\<rparr>"
    have a1: "active p1" by (simp add: p1_def active_def)
    from parse_loop_append [OF a1, of rest ys 1] assms(1,2) eq [of rest] eq [of "rest @ ys"] xs
    show ?thesis by (auto simp: Let_def p1_def [symmetric] split: if_splits)
  qed
qed

subsection \<open>The invariant of the class\<close>

text \<open>
  A body is what can lie between \<open>$\<close> and \<open>#\<close> in the buffer: no \<open>#\<close>, which ends it, and
  no \<open>*\<close>, which is replaced by the run it stands for.
\<close>

definition plain :: "string \<Rightarrow> bool" where
  "plain s = (CHR ''#'' \<notin> set s \<and> CHR ''*'' \<notin> set s)"

definition framed :: "string \<Rightarrow> bool" where
  "framed d = (d \<noteq> [] \<and> hd d = CHR ''$'' \<and> plain (tl d))"

definition body_of :: "string \<Rightarrow> string" where
  "body_of d = takeWhile (\<lambda>c. c \<noteq> CHR ''#'') d"

definition tail_of :: "string \<Rightarrow> string" where
  "tail_of d = dropWhile (\<lambda>c. c \<noteq> CHR ''#'') d"

definition pkt_inv :: "gdb_packet \<Rightarrow> bool" where
  "pkt_inv p =
     (let d = m_data p in
      case m_state p of
        St_invalid \<Rightarrow> d = [] \<and> m_csum p = 0
      | St_data \<Rightarrow> framed d
      | St_run_length_coding \<Rightarrow> framed d
      | St_crc \<Rightarrow> framed (body_of d) \<and> (length (tail_of d) = 1 \<or> length (tail_of d) = 2)
      | St_complete \<Rightarrow> d = ''+'' \<or> d = ''-'' \<or> d = [CHR 0x03]
                      \<or> framed (body_of d) \<and> length (tail_of d) = 3)"

lemma plain_simps [simp]:
  "plain []"
  "plain (c # s) \<longleftrightarrow> c \<noteq> CHR ''#'' \<and> c \<noteq> CHR ''*'' \<and> plain s"
  "plain (s @ t) \<longleftrightarrow> plain s \<and> plain t"
  by (auto simp: plain_def)

lemma plain_replicate [simp]: "plain (replicate n c) \<longleftrightarrow> n = 0 \<or> plain [c]"
  by (auto simp: plain_def)

lemma framed_not_Nil [simp]: "\<not> framed []"
  by (simp add: framed_def)

lemma framed_Cons [simp]: "framed (c # s) \<longleftrightarrow> c = CHR ''$'' \<and> plain s"
  by (simp add: framed_def)

lemma framed_iff: "framed d \<longleftrightarrow> (\<exists>s. d = CHR ''$'' # s \<and> plain s)"
  by (cases d) auto

lemma framed_append: "framed d \<Longrightarrow> framed (d @ s) \<longleftrightarrow> plain s"
  by (auto simp: framed_iff)

lemma framed_replicate: "framed d \<Longrightarrow> framed (d @ replicate n (last d))"
proof -
  assume f: "framed d"
  then obtain s where d: "d = CHR ''$'' # s" and s: "plain s" by (auto simp: framed_iff)
  have "plain [last d]"
  proof (cases "s = []")
    case False
    with d s show ?thesis by (auto simp: plain_def)
  qed (use d in simp)
  then show ?thesis using f by (simp add: framed_append)
qed

lemma framed_no_hash: "framed d \<Longrightarrow> CHR ''#'' \<notin> set d"
  by (auto simp: framed_iff plain_def)

lemma body_tail_append:
  "framed d \<Longrightarrow> body_of (d @ CHR ''#'' # t) = d"
  "framed d \<Longrightarrow> tail_of (d @ CHR ''#'' # t) = CHR ''#'' # t"
proof -
  assume "framed d"
  then have "\<forall>c\<in>set d. c \<noteq> CHR ''#''" using framed_no_hash by metis
  then show "body_of (d @ CHR ''#'' # t) = d" "tail_of (d @ CHR ''#'' # t) = CHR ''#'' # t"
    by (auto simp: body_of_def tail_of_def)
qed

lemma body_tail_split:
  assumes "length (tail_of d) = Suc n"
  shows "\<exists>t. d = body_of d @ CHR ''#'' # t \<and> tail_of d = CHR ''#'' # t \<and> length t = n"
proof -
  have d: "d = body_of d @ tail_of d"
    by (simp add: body_of_def tail_of_def)
  from assms obtain c t where ct: "tail_of d = c # t" by (cases "tail_of d") auto
  then have "c = CHR ''#''"
    using hd_dropWhile [of "\<lambda>c. c \<noteq> CHR ''#''" d] by (simp add: tail_of_def)
  with d ct assms show ?thesis by (intro exI [of _ t]) simp
qed

lemma pkt_inv_crcE:
  assumes "pkt_inv p" and "m_state p = St_crc"
  obtains b t where "m_data p = b @ CHR ''#'' # t" and "framed b" and "t = [] \<or> length t = 1"
proof -
  from assms obtain n where "framed (body_of (m_data p))" and "length (tail_of (m_data p)) = Suc n"
    and "n = 0 \<or> n = 1"
    by (auto simp: pkt_inv_def Let_def)
  with body_tail_split [of "m_data p" n] that show ?thesis by auto
qed

lemma pkt_inv_datE:
  assumes "pkt_inv p" and "m_state p = St_complete" and "pkt_type p = Pt_dat"
  obtains s c1 c2 where "m_data p = CHR ''$'' # s @ [CHR ''#'', c1, c2]" and "plain s"
proof -
  from assms have "framed (body_of (m_data p))" and l: "length (tail_of (m_data p)) = Suc 2"
    by (auto simp: pkt_inv_def Let_def pkt_type_def)
  moreover from body_tail_split [OF l] obtain t
    where t: "m_data p = body_of (m_data p) @ CHR ''#'' # t" "length t = 2" by auto
  moreover from t(2) obtain c1 c2 where "t = [c1, c2]"
    by (metis (no_types, lifting) One_nat_def Suc_1 length_0_conv length_Suc_conv)
  ultimately show ?thesis using that by (auto simp: framed_iff)
qed

lemma pkt_inv_empty [simp]: "pkt_inv empty_packet"
  by (simp add: pkt_inv_def empty_packet_def)

lemma pkt_inv_reset [simp]: "pkt_inv (reset p)"
  by (simp add: pkt_inv_def reset_def)

lemma parse_char_inv:
  assumes inv: "pkt_inv p" and act: "active p" and pc: "parse_char p ch = Inr (p', fin)"
  shows "pkt_inv p'"
proof (cases "m_state p")
  case St_data
  with inv have f: "framed (m_data p)" by (simp add: pkt_inv_def)
  with St_data pc show ?thesis
    by (auto simp: parse_char_def pkt_inv_def Let_def framed_append body_tail_append
        split: if_splits)
next
  case St_run_length_coding
  with inv have f: "framed (m_data p)" by (simp add: pkt_inv_def)
  with St_run_length_coding pc show ?thesis
    by (auto simp: parse_char_def pkt_inv_def Let_def framed_replicate split: if_splits)
next
  case St_crc
  from pkt_inv_crcE [OF inv St_crc] obtain b t
    where d: "m_data p = b @ CHR ''#'' # t" and f: "framed b" and t: "t = [] \<or> length t = 1" .
  have b: "b \<noteq> []" using f by auto
  have nh: "b ! i \<noteq> CHR ''#''" if "i < length b" for i
    using framed_no_hash [OF f] that nth_mem by metis
  show ?thesis
  proof (cases "t = []")
    case True
    have "(b @ [CHR ''#'', ch]) ! (length b - 1) = b ! (length b - 1)"
      using b by (simp add: nth_append)
    with nh [of "length b - 1"] b
    have "(b @ [CHR ''#'', ch]) ! (length b - Suc 0) \<noteq> CHR ''#''" by simp
    with St_crc pc d True f show ?thesis
      by (auto simp: parse_char_def pkt_inv_def Let_def body_tail_append split: if_splits)
  next
    case False
    with t obtain c where c: "t = [c]" by (cases t) auto
    with St_crc pc d f show ?thesis
      by (auto simp: parse_char_def pkt_inv_def Let_def body_tail_append nth_append
          split: if_splits)
  qed
qed (use act in \<open>simp_all add: active_def\<close>)

text \<open>The only failure inside the loop is the reservation for a run that is too short.\<close>

lemma schar_bounds: "- 128 \<le> schar c" "schar c < 128"
  using sint_lt [of "ord8 c"] sint_ge [of "ord8 c"] by (simp_all add: schar_def)

text \<open>A run count makes \<open>reserve\<close> throw when the length it asks for wraps below zero.\<close>

definition bad_count :: "gdb_packet \<Rightarrow> char \<Rightarrow> bool" where
  "bad_count p ch = (m_state p = St_run_length_coding \<and> schar ch + int (length (m_data p)) < 31)"

lemma parse_char_error:
  assumes inv: "pkt_inv p" and act: "active p" and small: "int (length (m_data p)) < 2 ^ 62"
  shows "parse_char p ch = Inl e \<longleftrightarrow> e = Length_Error \<and> bad_count p ch"
proof (cases "m_state p")
  case St_run_length_coding
  with inv have "framed (m_data p)" by (simp add: pkt_inv_def)
  then have ne: "m_data p \<noteq> []" by auto
  let ?n = "int (length (m_data p))"
  have n: "1 \<le> ?n" using ne by (cases "m_data p") auto
  have "vector_max_size < (?n + (schar ch - 32 + 3) - 2) mod 2 ^ 64 \<longleftrightarrow> schar ch + ?n < 31"
  proof (cases "schar ch + ?n < 31")
    case True
    let ?x = "?n + (schar ch - 32 + 3) - 2"
    have "(?x + 2 ^ 64) mod 2 ^ 64 = ?x + 2 ^ 64"
      using True n schar_bounds [of ch] by (intro mod_pos_pos_trivial) simp_all
    then have "?x mod 2 ^ 64 = ?x + 2 ^ 64" by (metis mod_add_self2)
    with True n schar_bounds [of ch] show ?thesis by (simp add: vector_max_size_def)
  next
    case False
    then have "0 \<le> ?n + (schar ch - 32 + 3) - 2" "?n + (schar ch - 32 + 3) - 2 < 2 ^ 63 - 1"
      using small schar_bounds [of ch] by simp_all
    with False show ?thesis by (simp add: vector_max_size_def)
  qed
  with ne St_run_length_coding show ?thesis
    by (auto simp: parse_char_def bad_count_def Let_def)
next
  case St_crc
  from pkt_inv_crcE [OF inv St_crc] obtain b t
    where "m_data p = b @ CHR ''#'' # t" "framed b" .
  then have "length (m_data p) \<ge> 2" by (cases b) auto
  with St_crc show ?thesis by (auto simp: parse_char_def bad_count_def Let_def)
qed (use act in \<open>auto simp: active_def parse_char_def bad_count_def Let_def\<close>)

lemma parse_char_length:
  "parse_char p ch = Inr (p', fin) \<Longrightarrow> length (m_data p') \<le> length (m_data p) + 98"
  using schar_bounds [of ch]
  by (auto simp: parse_char_def Let_def split: pstate.splits if_splits)

lemma parse_loop_inv:
  "pkt_inv p \<Longrightarrow> active p \<Longrightarrow> parse_loop p view n = Inr (p', m) \<Longrightarrow> pkt_inv p'"
proof (induction view arbitrary: p n)
  case Nil
  then show ?case by simp
next
  case (Cons ch rest)
  from Cons.prems obtain p1 fin where pc: "parse_char p ch = Inr (p1, fin)"
    by (cases "parse_char p ch") auto
  note inv1 = parse_char_inv [OF Cons.prems(1,2) pc]
  note st = parse_char_state [OF Cons.prems(2) pc]
  show ?case
    using Cons.IH [OF inv1, of "Suc n"] Cons.prems(3) pc inv1 st by (cases fin) auto
qed

lemma parse_inv: "pkt_inv p \<Longrightarrow> parse p view = Inr (p', n) \<Longrightarrow> pkt_inv p'"
proof -
  assume inv: "pkt_inv p" and eq: "parse p view = Inr (p', n)"
  consider "m_state p = St_complete" | "active p" | "m_state p = St_invalid"
    using state_trichotomy [of p] by auto
  then show ?thesis
  proof cases
    case 1
    with inv eq show ?thesis by (simp add: parse_def)
  next
    case 2
    with eq have "parse_loop p view 0 = Inr (p', n)" by (simp add: parse_active)
    with inv 2 show ?thesis by (rule parse_loop_inv)
  next
    case 3
    then have d: "m_data p = []" using inv by (simp add: pkt_inv_def)
    show ?thesis
    proof (cases view)
      case Nil
      with 3 eq show ?thesis by (simp add: parse_def is_invalid_def)
    next
      case (Cons c rest)
      define p1 where "p1 = p\<lparr>m_data := [c], m_state := St_data\<rparr>"
      have p1: "active p1" by (simp add: p1_def active_def)
      have i1: "pkt_inv p1" if "c = CHR ''$''" using that by (simp add: p1_def pkt_inv_def)
      from eq 3 Cons d
      consider "p' = p" | "packet_start c" "c \<noteq> CHR ''$''" "p' = p1\<lparr>m_state := St_complete\<rparr>"
        | "c = CHR ''$''" "parse_loop p1 rest 1 = Inr (p', n)"
        by (auto simp: parse_def is_invalid_def Let_def p1_def split: if_splits)
      then show ?thesis
      proof cases
        case 1
        with inv show ?thesis by simp
      next
        case 2
        then show ?thesis by (auto simp: pkt_inv_def p1_def packet_start_def)
      next
        case 3
        from parse_loop_inv [OF i1 [OF 3(1)] p1 3(2)] show ?thesis .
      qed
    qed
  qed
qed

lemma parse_bounds:
  assumes "parse p view = Inr (p', n)"
  shows "n \<le> length view"
    and "m_state p \<noteq> St_complete \<Longrightarrow> m_state p' = St_complete \<or> n = length view \<or> n = 0 \<and> p' = p"
proof -
  have "n \<le> length view \<and>
    (m_state p \<noteq> St_complete \<longrightarrow> m_state p' = St_complete \<or> n = length view \<or> n = 0 \<and> p' = p)"
  proof (cases "active p")
    case True
    with assms have "parse_loop p view 0 = Inr (p', n)" by (simp add: parse_active)
    from parse_loop_state [OF True this] show ?thesis by auto
  next
    case False
    then consider "m_state p = St_complete" | "m_state p = St_invalid"
      using state_trichotomy [of p] by auto
    then show ?thesis
    proof cases
      case 1
      with assms show ?thesis by (simp add: parse_def)
    next
      case 2
      with assms show ?thesis
        by (auto simp: parse_def is_invalid_def active_def Let_def split: list.splits if_splits
            dest!: parse_loop_state [rotated])
    qed
  qed
  then show "n \<le> length view"
    and "m_state p \<noteq> St_complete \<Longrightarrow> m_state p' = St_complete \<or> n = length view \<or> n = 0 \<and> p' = p"
    by auto
qed

lemma split_first:
  "(\<exists>u c v q. ch # rest = u @ c # v \<and> P u c v q) \<longleftrightarrow>
     (\<exists>q. P [] ch rest q) \<or> (\<exists>u c v q. rest = u @ c # v \<and> P (ch # u) c v q)"
  by (auto simp: Cons_eq_append_conv)

lemma parse_loop_error:
  "pkt_inv p \<Longrightarrow> active p \<Longrightarrow> int (length (m_data p)) + 98 * int (length view) < 2 ^ 62 \<Longrightarrow>
     parse_loop p view n = Inl e \<longleftrightarrow>
       e = Length_Error \<and> (\<exists>u c v q. view = u @ c # v \<and> parse_loop p u n = Inr (q, n + length u) \<and> bad_count q c)"
proof (induction view arbitrary: p n)
  case Nil
  then show ?case by simp
next
  case (Cons ch rest)
  have err: "parse_char p ch = Inl e' \<longleftrightarrow> e' = Length_Error \<and> bad_count p ch" for e'
    using Cons.prems by (intro parse_char_error) simp_all
  show ?case
  proof (cases "parse_char p ch")
    case (Inl e')
    with err [of e'] show ?thesis unfolding split_first by auto
  next
    case (Inr r)
    obtain p1 fin where r: "r = (p1, fin)" by (cases r)
    note pc = Inr [unfolded r]
    note inv1 = parse_char_inv [OF Cons.prems(1,2) pc]
    note st = parse_char_state [OF Cons.prems(2) pc]
    have ok: "\<not> bad_count p ch" using err [of Length_Error] pc by simp
    show ?thesis
    proof (cases fin)
      case True
      with st have "m_state p1 = St_complete" by simp
      with True pc ok show ?thesis unfolding split_first by (auto simp: bad_count_def)
    next
      case False
      with st have "active p1" by simp
      moreover have "int (length (m_data p1)) + 98 * int (length rest) < 2 ^ 62"
        using Cons.prems(3) parse_char_length [OF pc] by simp
      ultimately show ?thesis using Cons.IH [OF inv1, of "Suc n"] False pc ok unfolding split_first by simp
    qed
  qed
qed

subsection \<open>Building packets\<close>

definition csum8 :: "string \<Rightarrow> byte" where
  "csum8 s = sum_list (map ord8 s)"

lemma csum8_simps [simp]:
  "csum8 [] = 0" "csum8 (c # s) = ord8 c + csum8 s" "csum8 (s @ t) = csum8 s + csum8 t"
  by (simp_all add: csum8_def)

text \<open>What the wire holds for a payload, and the packet object that represents it.\<close>

definition wire :: "string \<Rightarrow> string" where
  "wire s = CHR ''$'' # s @ CHR ''#'' # hex_byte (csum8 s)"

definition data_packet :: "string \<Rightarrow> gdb_packet" where
  "data_packet s = \<lparr>m_data = wire s, m_state = St_complete, m_csum = csum8 s\<rparr>"

text \<open>An unfinished data packet that holds the text \<open>s\<close>.\<close>

definition open_packet :: "string \<Rightarrow> gdb_packet" where
  "open_packet s = \<lparr>m_data = CHR ''$'' # s, m_state = St_data, m_csum = csum8 s\<rparr>"

lemma length_hex_byte [simp]: "length (hex_byte b) = 2"
  by (simp add: hex_byte_def)

lemma parse_loop_plain:
  "m_state p = St_data \<Longrightarrow> plain s \<Longrightarrow>
     parse_loop p s n =
       Inr (p\<lparr>m_data := m_data p @ s, m_csum := m_csum p + csum8 s\<rparr>, n + length s)"
proof (induction s arbitrary: p n)
  case Nil
  then show ?case by simp
next
  case (Cons c s)
  then show ?case by (simp add: parse_char_def Let_def add.assoc)
qed

lemma packet_data_eq [simp]: "packet_data = Inr (open_packet [])"
  by (simp add: packet_data_def packet_of_type_def parse_def empty_packet_def is_invalid_def
      packet_start_def open_packet_def Let_def)

lemma parse_open [simp]:
  "plain t \<Longrightarrow> parse (open_packet s) t = Inr (open_packet (s @ t), length t)"
  by (simp add: parse_active active_def open_packet_def parse_loop_plain)

lemma parse_loop_crc:
  assumes "m_state p = St_crc" and "m_data p = d @ [CHR ''#'']" and "d \<noteq> []"
    and "last d \<noteq> CHR ''#''"
  shows "parse_loop p (c1 # c2 # rest) n =
    Inr (p\<lparr>m_data := m_data p @ [c1, c2], m_state := St_complete\<rparr>, n + 2)"
proof -
  have l: "length d \<noteq> 0" using assms(3) by simp
  have "(d @ [CHR ''#'', c1]) ! (length d - 1) = last d"
    using assms(3) by (simp add: nth_append last_conv_nth)
  then have "parse_char p c1 = Inr (p\<lparr>m_data := m_data p @ [c1]\<rparr>, False)"
    using assms l by (auto simp: parse_char_def Let_def)
  moreover have "parse_char (p\<lparr>m_data := m_data p @ [c1]\<rparr>) c2 =
      Inr (p\<lparr>m_data := m_data p @ [c1, c2], m_state := St_complete\<rparr>, True)"
    using assms by (simp add: parse_char_def Let_def nth_append)
  ultimately show ?thesis by simp
qed

lemma parse_loop_hash:
  assumes "m_state p = St_data" and "framed (m_data p)"
  shows "parse_loop p (CHR ''#'' # c1 # c2 # rest) n =
    Inr (p\<lparr>m_data := m_data p @ [CHR ''#'', c1, c2], m_state := St_complete\<rparr>, n + 3)"
proof -
  have ne: "m_data p \<noteq> []" using assms(2) by auto
  then have "last (m_data p) \<in> set (m_data p)" by simp
  with framed_no_hash [OF assms(2)] have "last (m_data p) \<noteq> CHR ''#''" by metis
  with ne assms(1) show ?thesis
    using parse_loop_crc [of "p\<lparr>m_data := m_data p @ [CHR ''#''], m_state := St_crc\<rparr>"
        "m_data p" c1 c2 rest "Suc n"]
    by (simp add: parse_char_def Let_def)
qed

lemma finalize_open [simp]:
  assumes "plain s"
  shows "finalize (open_packet s) = Inr (data_packet s, True)"
proof -
  have "framed (m_data (open_packet s))" using assms by (simp add: open_packet_def)
  then show ?thesis
    using parse_loop_hash [of "open_packet s" _ _ "[]" 0]
    by (simp add: finalize_def pkt_type_def open_packet_def parse_active active_def hex_byte_def
        data_packet_def wire_def)
qed

lemma data_packet_fields [simp]:
  "m_state (data_packet s) = St_complete"
  "m_csum (data_packet s) = csum8 s"
  "m_data (data_packet s) = wire s"
  by (simp_all add: data_packet_def)

lemma data_packet_type [simp]: "pkt_type (data_packet s) = Pt_dat"
  by (simp add: pkt_type_def wire_def)

lemma data_packet_data [simp]: "pkt_data (data_packet s) = s"
  by (simp add: pkt_data_def wire_def)

lemma data_packet_raw [simp]: "raw_data (data_packet s) = wire s"
  by (simp add: raw_data_def)

lemma pkt_inv_data_packet [simp]: "plain s \<Longrightarrow> pkt_inv (data_packet s)"
  using body_tail_append [of "CHR ''$'' # s" "hex_byte (csum8 s)"]
  by (simp add: pkt_inv_def wire_def)

lemma stoi16_hex_byte [simp]: "stoi16 (hex_byte b) = Inr (uint b)"
proof -
  have "unat b < 2 ^ LENGTH(8)" by (rule unsigned_less)
  then have b: "unat b < 256" by simp
  then have h: "unat b div 16 < 16" by auto
  have "strto16 (hex_byte b @ []) = Some (False, hex_value (hex_byte b))"
    using h by (intro strto16_digits) (simp_all add: hex_byte_def)
  moreover have "hex_value (hex_byte b) = unat b"
    using h by (simp add: hex_byte_def hex_value_def)
  ultimately have "strto16 (hex_byte b) = Some (False, unat b)" by simp
  moreover have "uint b < 2 ^ LENGTH(8)" by (rule unsigned_less)
  ultimately show ?thesis using b by (simp add: stoi16_def)
qed

lemma data_crc_tail:
  "m_data p = d @ hex_byte b \<Longrightarrow> pkt_type p = Pt_dat \<Longrightarrow> data_crc p = Inr b"
  by (simp add: data_crc_def)

subsection \<open>Run-length coding\<close>

text \<open>
  The payload a run-length coded text stands for: \<open>*\<close> followed by a character \<open>c\<close> repeats the
  character before it \<open>c - 29\<close> more times.
\<close>

fun rle_expand :: "char \<Rightarrow> string \<Rightarrow> string" where
  "rle_expand prev [] = []"
| "rle_expand prev (x # r) =
     (if x = CHR ''*''
      then (case r of
              [] \<Rightarrow> []
            | c # r' \<Rightarrow> replicate (nat (schar c - 29)) prev @ rle_expand prev r')
      else x # rle_expand x r)"

text \<open>Every \<open>*\<close> is followed by a count of at least one, and nothing else ends the payload.\<close>

fun rle_ok :: "string \<Rightarrow> bool" where
  "rle_ok [] = True"
| "rle_ok (x # r) =
     (if x = CHR ''*'' then (case r of [] \<Rightarrow> False | c # r' \<Rightarrow> 30 \<le> schar c \<and> rle_ok r')
      else x \<noteq> CHR ''#'' \<and> rle_ok r)"

lemma rle_expand_plain: "plain s \<Longrightarrow> rle_expand c s = s"
  by (induction s arbitrary: c) auto

lemma rle_ok_plain: "plain s \<Longrightarrow> rle_ok s"
  by (induction s) auto

lemma last_append_replicate: "d \<noteq> [] \<Longrightarrow> last (d @ replicate n (last d)) = last d"
  by (cases n) auto

lemma parse_loop_rle:
  "m_state p = St_data \<Longrightarrow> framed (m_data p) \<Longrightarrow> rle_ok s \<Longrightarrow>
     int (length (m_data p)) + 98 * int (length s) < 2 ^ 62 \<Longrightarrow>
     parse_loop p s n =
       Inr (p\<lparr>m_data := m_data p @ rle_expand (last (m_data p)) s,
             m_csum := m_csum p + csum8 s\<rparr>, n + length s)
     \<and> framed (m_data p @ rle_expand (last (m_data p)) s)"
proof (induction s arbitrary: p n rule: rle_ok.induct)
  case 1
  then show ?case by simp
next
  case (2 x r)
  let ?d = "m_data p"
  have ne: "?d \<noteq> []" using "2.prems"(2) by auto
  show ?case
  proof (cases "x = CHR ''*''")
    case False
    let ?p = "p\<lparr>m_data := ?d @ [x], m_csum := m_csum p + ord8 x\<rparr>"
    have "parse_char p x = Inr (?p, False)"
      using False "2.prems"(1,3) by (simp add: parse_char_def Let_def)
    moreover have "framed (m_data ?p)"
      using False "2.prems"(2,3) by (simp add: framed_append)
    moreover have "int (length (m_data ?p)) + 98 * int (length r) < 2 ^ 62"
      using "2.prems"(4) by simp
    ultimately show ?thesis
      using "2.IH"(2) [OF False, of ?p "Suc n"] False "2.prems"(1,3) by (simp add: add.assoc)
  next
    case True
    with "2.prems"(3) obtain c r' where r: "r = c # r'" and c: "30 \<le> schar c" "rle_ok r'"
      by (cases r) auto
    let ?run = "replicate (nat (schar c - 29)) (last ?d)"
    let ?p1 = "p\<lparr>m_csum := m_csum p + ord8 x, m_state := St_run_length_coding\<rparr>"
    let ?p2 = "p\<lparr>m_data := ?d @ ?run, m_csum := m_csum p + ord8 x + ord8 c\<rparr>"
    have 1: "parse_char p x = Inr (?p1, False)"
      using True "2.prems"(1) by (simp add: parse_char_def Let_def)
    obtain k where "length ?d = Suc k" using ne by (cases ?d) simp_all
    then have "0 \<le> int (length ?d) + (schar c - 29) - 2"
      "int (length ?d) + (schar c - 29) - 2 < 2 ^ 63 - 1"
      using c(1) schar_bounds [of c] "2.prems"(4) by simp_all
    then have "\<not> vector_max_size < (int (length ?d) + (schar c - 29) - 2) mod 2 ^ 64"
      by (simp add: vector_max_size_def)
    then have 2: "parse_char ?p1 c = Inr (?p2, False)"
      using ne "2.prems"(1) by (simp add: parse_char_def Let_def algebra_simps)
    have f: "framed (?d @ ?run)" by (rule framed_replicate) (rule "2.prems"(2))
    have "int (length (m_data ?p2)) + 98 * int (length r') < 2 ^ 62"
      using "2.prems"(4) r schar_bounds [of c] by simp
    with "2.IH"(1) [OF True r, of ?p2 "Suc (Suc n)"] f c(2) "2.prems"(1)
    show ?thesis
      using True r 1 2 last_append_replicate [OF ne] by (simp add: add.assoc)
  qed
qed

lemma parse_wire_aux:
  assumes "rle_ok s" and "98 * int (length s) < 2 ^ 61"
  shows "parse empty_packet (CHR ''$'' # s @ CHR ''#'' # c1 # c2 # rest) =
      Inr (\<lparr>m_data = CHR ''$'' # rle_expand (CHR ''$'') s @ [CHR ''#'', c1, c2],
            m_state = St_complete, m_csum = csum8 s\<rparr>, length s + 4)"
    and "plain (rle_expand (CHR ''$'') s)"
proof -
  let ?p = "open_packet []"
  let ?q = "?p\<lparr>m_data := CHR ''$'' # rle_expand (CHR ''$'') s, m_csum := csum8 s\<rparr>"
  have a: "active ?p" by (simp add: active_def open_packet_def)
  have r: "parse_loop ?p s 1 = Inr (?q, 1 + length s)" and f: "framed (m_data ?q)"
    using parse_loop_rle [of ?p s 1] assms by (simp_all add: open_packet_def)
  from f show "plain (rle_expand (CHR ''$'') s)" by simp
  have q: "m_state ?q = St_data" by (simp add: open_packet_def)
  have "parse_loop ?p (s @ CHR ''#'' # c1 # c2 # rest) 1 =
      Inr (?q\<lparr>m_data := m_data ?q @ [CHR ''#'', c1, c2], m_state := St_complete\<rparr>, 1 + length s + 3)"
    using parse_loop_append [OF a, of s "CHR ''#'' # c1 # c2 # rest" 1]
      parse_loop_hash [OF q f, of c1 c2 rest "1 + length s"] r q
    by (simp del: gdb_packet.update_convs)
  then show "parse empty_packet (CHR ''$'' # s @ CHR ''#'' # c1 # c2 # rest) =
      Inr (\<lparr>m_data = CHR ''$'' # rle_expand (CHR ''$'') s @ [CHR ''#'', c1, c2],
            m_state = St_complete, m_csum = csum8 s\<rparr>, length s + 4)"
    by (simp add: parse_def empty_packet_def is_invalid_def packet_start_def open_packet_def)
qed

lemma parse_wire [simp]:
  assumes "plain s" and "98 * int (length s) < 2 ^ 61"
  shows "parse empty_packet (wire s @ rest) = Inr (data_packet s, length (wire s))"
  using parse_wire_aux(1) [OF rle_ok_plain [OF assms(1)] assms(2)] rle_expand_plain [OF assms(1)]
  by (simp add: wire_def data_packet_def hex_byte_def)

text \<open>
  The wire format is a framed encoding of payloads: the parser splits the first packet off.
\<close>

definition split_wire :: "string \<Rightarrow> (string \<times> string) option" where
  "split_wire s =
     (case parse empty_packet s of
        Inl e \<Rightarrow> None
      | Inr (p, n) \<Rightarrow>
          if is_complete p \<and> pkt_type p = Pt_dat then Some (pkt_data p, drop n s) else None)"

definition payload_ok :: "string \<Rightarrow> bool" where
  "payload_ok s = (plain s \<and> 98 * int (length s) < 2 ^ 61)"

interpretation wire_codec: framed_codec wire split_wire payload_ok
  by unfold_locales (simp add: split_wire_def payload_ok_def is_complete_def)

subsection \<open>Properties\<close>

text \<open>C8: The result of parsing does not depend on how the stream is cut into reads: after a
  prefix that started a packet, parsing the whole input gives the packet the prefix completed,
  or continues on the rest from where the prefix stopped.\<close>

theorem parse_chunks:
  assumes "parse p xs = Inr (p', n)" and "m_state p \<noteq> St_complete" and "\<not> is_invalid p'"
  shows "parse p (xs @ ys) =
    (if is_complete p' then Inr (p', n)
     else bind_res (parse p' ys) (\<lambda>(p'', m). Inr (p'', m + n)))"
proof (cases "is_complete p'")
  case True
  with assms show ?thesis by (simp add: is_complete_def parse_append_complete)
next
  case False
  with assms(3) state_trichotomy [of p'] have "active p'"
    by (auto simp: is_complete_def is_invalid_def)
  with assms False show ?thesis by (simp add: parse_append_active(1))
qed

theorem parse_chunks_witness:
  "parse empty_packet (''$qC'' @ ''#b4+'') = Inr (data_packet ''qC'', 6)"
proof -
  have 1: "parse empty_packet ''$qC'' = Inr (open_packet ''qC'', 3)" by code_simp
  have 2: "m_state empty_packet \<noteq> St_complete" by (simp add: empty_packet_def)
  have 3: "\<not> is_invalid (open_packet ''qC'')" by (simp add: is_invalid_def open_packet_def)
  have "parse (open_packet ''qC'') ''#b4+'' = Inr (data_packet ''qC'', 3)" by code_simp
  then show ?thesis
    unfolding parse_chunks [OF 1 2 3] by (simp add: is_complete_def open_packet_def)
qed

text \<open>C17: Every call of parse keeps the class invariant, consumes no more than it was given, and
  stops early only when it has completed the packet or refused its first byte.\<close>

theorem parse_preserves_inv:
  assumes "pkt_inv p" and "m_state p \<noteq> St_complete" and "parse p view = Inr (p', n)"
  shows "pkt_inv p' \<and> n \<le> length view \<and> (is_complete p' \<or> n = length view \<or> n = 0 \<and> p' = p)"
  using parse_inv [OF assms(1,3)] parse_bounds(1) [OF assms(3)]
    parse_bounds(2) [OF assms(3,2)] by (simp add: is_complete_def)

theorem parse_preserves_inv_witness:
  "pkt_inv (data_packet ''OK'') \<and> parse empty_packet ''$OK#9a+'' = Inr (data_packet ''OK'', 6)"
proof -
  have 1: "m_state empty_packet \<noteq> St_complete" by (simp add: empty_packet_def)
  have 2: "parse empty_packet ''$OK#9a+'' = Inr (data_packet ''OK'', 6)" by code_simp
  from parse_preserves_inv [OF pkt_inv_empty 1 2] 2 show ?thesis by simp
qed

text \<open>C18: On a packet that satisfies the invariant, parse fails in exactly two situations: on an empty
  input before the packet has begun (it reads the byte past the end), and with \<open>std::length_error\<close>
  when, after some prefix of the input, the parser has just read the \<open>*\<close> of a run and the next
  character, as a signed \<open>char\<close>, is less than 31 minus the number of characters collected so far
  (so below 30, where the least count the protocol can write is 32, and nowhere else in a packet). In
  particular it never reads outside its buffer.\<close>

theorem parse_failures:
  assumes "pkt_inv p" and "int (length (m_data p)) + 98 * int (length view) < 2 ^ 61"
  shows "parse p view = Inl e \<longleftrightarrow>
    e = Undefined \<and> view = [] \<and> is_invalid p
    \<or> e = Length_Error \<and> (\<exists>u c v q. view = u @ c # v \<and> parse p u = Inr (q, length u)
        \<and> m_state q = St_run_length_coding \<and> schar c + int (length (m_data q)) < 31)"
  unfolding bad_count_def [symmetric]
proof -
  consider "m_state p = St_complete" | "active p" | "m_state p = St_invalid"
    using state_trichotomy [of p] by auto
  then show "parse p view = Inl e \<longleftrightarrow> e = Undefined \<and> view = [] \<and> is_invalid p
    \<or> e = Length_Error \<and> (\<exists>u c v q. view = u @ c # v \<and> parse p u = Inr (q, length u) \<and> bad_count q c)"
  proof cases
    case 1
    then show ?thesis by (auto simp: parse_def is_invalid_def bad_count_def)
  next
    case 2
    then have "\<not> is_invalid p" by (auto simp: active_def is_invalid_def)
    with 2 parse_loop_error [OF assms(1) 2, of view 0 e] assms(2) show ?thesis
      by (simp add: parse_active)
  next
    case 3
    show ?thesis
    proof (cases view)
      case Nil
      with 3 show ?thesis by (auto simp: parse_def is_invalid_def)
    next
      case (Cons c rest)
      let ?p1 = "p\<lparr>m_data := m_data p @ [c], m_state := St_data\<rparr>"
      from 3 assms(1) have d: "m_data p = []" by (simp add: pkt_inv_def)
      have split: "(\<exists>u c' v q. view = u @ c' # v \<and> parse p u = Inr (q, length u) \<and> bad_count q c') \<longleftrightarrow>
          (\<exists>u c' v q. rest = u @ c' # v \<and> parse p (c # u) = Inr (q, Suc (length u)) \<and> bad_count q c')"
        unfolding Cons split_first using 3 by (simp add: parse_def [of p "[]"] is_invalid_def)
      show ?thesis
      proof (cases "c = CHR ''$''")
        case True
        then have inv: "active ?p1" "pkt_inv ?p1" using d by (simp_all add: active_def pkt_inv_def)
        have run: "parse p (c # x) = parse_loop ?p1 x 1" for x
          using 3 d True by (simp add: parse_def is_invalid_def packet_start_def Let_def)
        show ?thesis
          unfolding split using parse_loop_error [OF inv(2,1), of rest 1 e] Cons assms(2) d by (simp add: run)
      next
        case False
        then have "parse p (c # x) = Inr (if packet_start c then (?p1\<lparr>m_state := St_complete\<rparr>, 1) else (p, 0))" for x
          using 3 d by (simp add: parse_def is_invalid_def Let_def)
        then show ?thesis
          unfolding split using Cons 3 by (auto simp: bad_count_def split: if_splits)
      qed
    qed
  qed
qed

theorem parse_failures_witness:
  "parse empty_packet [CHR ''$'', CHR ''*'', CHR 0x1C] = Inl Length_Error
   \<and> (\<forall>e. parse empty_packet [CHR ''$'', CHR 0x1C, CHR 0x80] \<noteq> Inl e)"
proof -
  let ?v = "[CHR ''$'', CHR ''*'', CHR 0x1C]" and ?w = "[CHR ''$'', CHR 0x1C, CHR 0x80]"
  have 1: "int (length (m_data empty_packet)) + 98 * int (length ?v) < 2 ^ 61"
    "int (length (m_data empty_packet)) + 98 * int (length ?w) < 2 ^ 61"
    by (simp_all add: empty_packet_def)
  let ?q = "\<lparr>m_data = ''$'', m_state = St_run_length_coding, m_csum = 0x2A\<rparr>"
  have run: "parse empty_packet ''$*'' = Inr (?q, length ''$*'')" by code_simp
  have count: "schar (CHR 0x1C) + int (length (m_data ?q)) < 31" by code_simp
  have "parse empty_packet ?v = Inl Length_Error"
    by (rule parse_failures [OF pkt_inv_empty 1(1), THEN iffD2], intro disjI2 conjI refl exI [of _ "''$*''"]
        exI [of _ "CHR 0x1C"] exI [of _ "[]"] exI [of _ ?q]) (simp, rule run, simp, rule count)
  moreover have "parse empty_packet ?w \<noteq> Inl e" for e
  proof -
    have "case parse empty_packet ?w of Inl e \<Rightarrow> False | Inr r \<Rightarrow> True" by code_simp
    then show ?thesis by auto
  qed
  ultimately show ?thesis by blast
qed

text \<open>C7: The parser implements the protocol's grammar with its run-length coding: on
  \<open>$payload#cc\<close>, followed by anything, it consumes exactly the packet and exposes the expanded
  payload, with the modulo-256 sum of the bytes of the wire as the computed checksum.\<close>

theorem parse_grammar:
  assumes "rle_ok s" and "98 * int (length s) < 2 ^ 61"
  shows "\<exists>p. parse empty_packet (CHR ''$'' # s @ CHR ''#'' # c1 # c2 # rest) = Inr (p, length s + 4)
    \<and> is_complete p \<and> pkt_type p = Pt_dat \<and> pkt_data p = rle_expand (CHR ''$'') s
    \<and> calc_crc p = csum8 s \<and> pkt_inv p"
proof -
  let ?p = "\<lparr>m_data = CHR ''$'' # rle_expand (CHR ''$'') s @ [CHR ''#'', c1, c2],
            m_state = St_complete, m_csum = csum8 s\<rparr>"
  note eq = parse_wire_aux(1) [OF assms, of c1 c2 rest]
  moreover from eq have "pkt_inv ?p" by (rule parse_inv [OF pkt_inv_empty])
  ultimately show ?thesis
    by (intro exI [of _ ?p]) (simp add: is_complete_def pkt_type_def pkt_data_def calc_crc_def)
qed

theorem parse_grammar_witness:
  "\<exists>p. parse empty_packet ''$0* #7a+'' = Inr (p, 7) \<and> is_complete p \<and> pkt_data p = ''0000''"
proof -
  have 1: "rle_ok ''0* ''" by code_simp
  have "rle_expand (CHR ''$'') ''0* '' = ''0000''" by code_simp
  with parse_grammar [OF 1, of "CHR ''7''" "CHR ''a''" "''+''"] show ?thesis by auto
qed

text \<open>C16: A packet built as the proxy builds its own (a data packet, its text, finalize) is
  complete, carries the text and the checksum of the text, and parsing its raw bytes gives the
  same packet back, whatever follows.\<close>

theorem finalize_roundtrip:
  assumes "payload_ok s"
  shows "\<exists>p. bind_res packet_data (\<lambda>q. bind_res (parse q s) (\<lambda>(q', n). finalize q')) = Inr (p, True)
    \<and> is_complete p \<and> pkt_data p = s \<and> data_crc p = Inr (csum8 s) \<and> calc_crc p = csum8 s
    \<and> parse empty_packet (raw_data p @ rest) = Inr (p, length (raw_data p))"
proof (intro exI [of _ "data_packet s"] conjI)
  from assms have s: "plain s" and l: "98 * int (length s) < 2 ^ 61"
    by (simp_all add: payload_ok_def)
  show "bind_res packet_data (\<lambda>q. bind_res (parse q s) (\<lambda>(q', n). finalize q'))
      = Inr (data_packet s, True)" using s by simp
  show "data_crc (data_packet s) = Inr (csum8 s)"
    by (rule data_crc_tail [of _ "CHR ''$'' # s @ ''#''"]) (simp_all add: wire_def)
  show "parse empty_packet (raw_data (data_packet s) @ rest)
      = Inr (data_packet s, length (raw_data (data_packet s)))" using s l by simp
qed (simp_all add: is_complete_def calc_crc_def)

theorem finalize_roundtrip_witness:
  "payload_ok ''E01'' \<and> (\<exists>p. is_complete p \<and> pkt_data p = ''E01'' \<and> data_crc p = Inr 166)"
proof -
  have 1: "payload_ok ''E01''" by (simp add: payload_ok_def)
  have "csum8 ''E01'' = 166" by code_simp
  with finalize_roundtrip [OF 1, of "[]"] 1 show ?thesis by auto
qed

text \<open>C34: What a received packet is forwarded as: the run-length coded payload is expanded, but
  the checksum bytes are the received ones, so the forwarded packet is valid exactly when the
  expansion happens to have the checksum of the coded text. The witness is a valid packet whose
  forwarded form is not.\<close>

theorem rle_forward_checksum:
  assumes "rle_ok s" and "98 * int (length s) < 2 ^ 61"
  shows "\<exists>p. parse empty_packet (wire s) = Inr (p, length (wire s))
    \<and> raw_data p = CHR ''$'' # rle_expand (CHR ''$'') s @ CHR ''#'' # hex_byte (csum8 s)
    \<and> (data_crc p = Inr (csum8 (pkt_data p)) \<longleftrightarrow> csum8 (rle_expand (CHR ''$'') s) = csum8 s)"
proof -
  let ?e = "rle_expand (CHR ''$'') s"
  let ?p = "\<lparr>m_data = CHR ''$'' # ?e @ CHR ''#'' # hex_byte (csum8 s),
            m_state = St_complete, m_csum = csum8 s\<rparr>"
  have "data_crc ?p = Inr (csum8 s)"
    by (rule data_crc_tail [of _ "CHR ''$'' # ?e @ ''#''"]) (simp_all add: pkt_type_def)
  moreover have "pkt_data ?p = ?e" by (simp add: pkt_data_def pkt_type_def)
  moreover have "parse empty_packet (wire s) = Inr (?p, length (wire s))"
    using parse_wire_aux(1) [OF assms, of _ _ "[]"] by (simp add: wire_def hex_byte_def)
  ultimately show ?thesis by (intro exI [of _ ?p]) (auto simp: raw_data_def)
qed

theorem rle_forward_checksum_witness:
  "\<exists>p. parse empty_packet ''$0* #7a'' = Inr (p, 7) \<and> raw_data p = ''$0000#7a''
    \<and> data_crc p \<noteq> Inr (csum8 (pkt_data p))"
proof -
  have 1: "rle_ok ''0* ''" by code_simp
  have 2: "wire ''0* '' = ''$0* #7a''" by code_simp
  have 3: "rle_expand (CHR ''$'') ''0* '' = ''0000''" by code_simp
  have 4: "csum8 ''0000'' \<noteq> csum8 ''0* ''" by code_simp
  have 5: "hex_byte (csum8 ''0* '') = ''7a''" by code_simp
  from rle_forward_checksum [OF 1] show ?thesis unfolding 2 3 5 using 4 by auto
qed

text \<open>data\_crc reads the two bytes before the end of the buffer unless the packet is neither
  a data packet nor complete: on a complete Ack, Nak or Break, whose buffer has one byte, it
  reads before the buffer's start.\<close>

theorem data_crc_unguarded:
  assumes "pkt_inv p" and "is_complete p" and "pkt_type p \<noteq> Pt_dat"
  shows "data_crc p = Inl Undefined"
proof -
  from assms have "m_data p = ''+'' \<or> m_data p = ''-'' \<or> m_data p = [CHR 0x03]"
    by (auto simp: pkt_inv_def Let_def is_complete_def framed_iff pkt_type_def body_of_def
        split: list.splits if_splits)
  with assms(2,3) show ?thesis by (auto simp: data_crc_def is_complete_def)
qed

theorem data_crc_unguarded_witness:
  "\<exists>p. packet_ack = Inr p \<and> data_crc p = Inl Undefined"
proof -
  let ?p = "\<lparr>m_data = ''+'', m_state = St_complete, m_csum = 0\<rparr>"
  have "packet_ack = Inr ?p" by code_simp
  moreover have "data_crc ?p = Inl Undefined"
    by (rule data_crc_unguarded) (simp_all add: pkt_inv_def is_complete_def pkt_type_def)
  ultimately show ?thesis by blast
qed

end
