(* ===== verification/Target.thy ===== *)
theory Target
  imports Gdb_Packet
begin

section \<open>The target interface (target.h, target.cpp, target\_null.h)\<close>

text \<open>
  A target is asked about every data packet of the client and answers whether it has handled it.
  What it does to the connection is a list of calls, in order: the \<open>push\_\<close> methods of
  \<open>connection\<close> only queue a transfer and start an asynchronous write, so none of them runs a
  handler before the target's method returns. A response callback is a value of the target's own
  type \<open>'cb\<close>, which the target runs when the connection hands the response back.
\<close>

datatype 'cb conn_call =
    Internal_Request gdb_packet "'cb option"   \<comment> \<open>connection::push\_internal\_request\<close>
  | Client_Request gdb_packet "'cb option"     \<comment> \<open>connection::push\_request\<close>
  | Internal_Response gdb_packet               \<comment> \<open>connection::push\_internal\_response\<close>

fun call_packet :: "'cb conn_call \<Rightarrow> gdb_packet" where
  "call_packet (Internal_Request p cb) = p"
| "call_packet (Client_Request p cb) = p"
| "call_packet (Internal_Response p) = p"

text \<open>The connection relies on every pushed packet being a complete data packet.\<close>

definition data_pkt :: "gdb_packet \<Rightarrow> bool" where
  "data_pkt p = (pkt_inv p \<and> is_complete p \<and> pkt_type p = Pt_dat)"

definition call_ok :: "'cb conn_call \<Rightarrow> bool" where
  "call_ok c = data_pkt (call_packet c)"

lemma data_pkt_data_packet [simp]: "plain s \<Longrightarrow> data_pkt (data_packet s)"
  by (simp add: data_pkt_def is_complete_def)

lemma data_pktE:
  assumes "data_pkt p"
  obtains s c1 c2 where "m_data p = CHR ''$'' # s @ [CHR ''#'', c1, c2]" and "plain s"
    and "pkt_data p = s" and "raw_data p = m_data p"
proof -
  from assms have inv: "pkt_inv p" "m_state p = St_complete" "pkt_type p = Pt_dat"
    by (simp_all add: data_pkt_def is_complete_def)
  then show ?thesis
    using that by (elim pkt_inv_datE) (auto simp: pkt_data_def raw_data_def)
qed

lemma plain_pkt_data: "data_pkt p \<Longrightarrow> plain (pkt_data p)"
  by (elim data_pktE) simp

text \<open>
  The contract between the connection and a target: a state invariant that every method keeps,
  and complete data packets only.
\<close>

locale target_contract =
  fixes process_request :: "'t \<Rightarrow> gdb_packet \<Rightarrow> ('t \<times> 'cb conn_call list \<times> bool) res"
    and on_reply :: "'cb \<Rightarrow> gdb_packet \<Rightarrow> gdb_packet \<Rightarrow> 't \<Rightarrow> ('t \<times> 'cb conn_call list) res"
    and inv :: "'t \<Rightarrow> bool"
  assumes request_inv: "inv t \<Longrightarrow> data_pkt p \<Longrightarrow> process_request t p = Inr (t', cs, h) \<Longrightarrow> inv t'"
    and request_calls: "inv t \<Longrightarrow> data_pkt p \<Longrightarrow> process_request t p = Inr (t', cs, h)
      \<Longrightarrow> list_all call_ok cs"
    and reply_inv: "inv t \<Longrightarrow> data_pkt req \<Longrightarrow> data_pkt rep \<Longrightarrow> on_reply cb req rep t = Inr (t', cs)
      \<Longrightarrow> inv t'"
    and reply_calls: "inv t \<Longrightarrow> data_pkt req \<Longrightarrow> data_pkt rep \<Longrightarrow> on_reply cb req rep t = Inr (t', cs)
      \<Longrightarrow> list_all call_ok cs"

subsection \<open>The null target\<close>

definition null_process_request ::
  "unit \<Rightarrow> gdb_packet \<Rightarrow> (unit \<times> unit conn_call list \<times> bool) res" where
  "null_process_request t req_pkt = Inr (t, [], False)"

text \<open>It registers no callback, so this is never called.\<close>

definition null_on_reply ::
  "unit \<Rightarrow> gdb_packet \<Rightarrow> gdb_packet \<Rightarrow> unit \<Rightarrow> (unit \<times> unit conn_call list) res" where
  "null_on_reply cb req rep t = Inr (t, [])"

interpretation null_target: target_contract null_process_request null_on_reply "\<lambda>_. True"
  by unfold_locales (auto simp: null_process_request_def null_on_reply_def)

end
