(* ===== verification/Connection.thy ===== *)
theory Connection
  imports Target
begin

section \<open>Connections and channels (proxy-conn.hpp, proxy-conn.cpp)\<close>

text \<open>
  A connection has two channels, requests (client to remote) and responses (remote to client).
  Each reads packets from its source socket, hands every complete packet to its handler, and
  writes what the handler leaves, as well as what the target pushes, to its destination socket.

  The sockets are not part of the program. A pending asynchronous operation is recorded in the
  state and completes in an \<open>event\<close>; the handlers of the events are the completion handlers of
  the code. A write hands a whole packet over to the socket when it is started (\<open>ch_sent\<close>); the
  completion handler's captured reference to its transfer is the transfer's number \<open>tr_id\<close>, and
  using it after the transfer has left the queue is \<open>Undefined\<close>. \<open>tr_id\<close>, \<open>next_id\<close>, \<open>ch_writes\<close>
  and \<open>ch_sent\<close> stand for what ASIO keeps. \<open>assert\<close> is taken to be compiled in.

  The target is a parameter: the two functions of \<open>target_contract\<close>.
\<close>

subsection \<open>State\<close>

datatype direction = Requests | Responses

record 'cb transfer =
  tr_id :: nat
  tr_pkt :: gdb_packet
  is_internal :: bool
  on_response_cb :: "'cb option"

definition buffer_capacity :: nat where
  "buffer_capacity = 8192"

record 'cb channel =
  m_packet :: gdb_packet
  m_transfers :: "'cb transfer list"
  ch_writes :: "(nat \<times> nat) list"
  ch_sent :: "string list"
  ch_reading :: bool

record ('t, 'cb) connection =
  m_requests_channel :: "'cb channel"
  m_responses_channel :: "'cb channel"
  conn_seq :: nat
  m_ack_mode :: bool
  m_target :: "'t option"
  conn_closed :: bool
  next_id :: nat

type_synonym ('t, 'cb) request_fun = "'t \<Rightarrow> gdb_packet \<Rightarrow> ('t \<times> 'cb conn_call list \<times> bool) res"
type_synonym ('t, 'cb) reply_fun =
  "'cb \<Rightarrow> gdb_packet \<Rightarrow> gdb_packet \<Rightarrow> 't \<Rightarrow> ('t \<times> 'cb conn_call list) res"

definition channel_new :: "'cb channel" where
  "channel_new = \<lparr>m_packet = empty_packet, m_transfers = [], ch_writes = [], ch_sent = [],
     ch_reading = False\<rparr>"

definition get_channel :: "direction \<Rightarrow> ('t, 'cb) connection \<Rightarrow> 'cb channel" where
  "get_channel dir c = (case dir of Requests \<Rightarrow> m_requests_channel c | Responses \<Rightarrow> m_responses_channel c)"

definition upd_channel ::
  "direction \<Rightarrow> ('cb channel \<Rightarrow> 'cb channel) \<Rightarrow> ('t, 'cb) connection \<Rightarrow> ('t, 'cb) connection" where
  "upd_channel dir f c =
     (case dir of
        Requests \<Rightarrow> c\<lparr>m_requests_channel := f (m_requests_channel c)\<rparr>
      | Responses \<Rightarrow> c\<lparr>m_responses_channel := f (m_responses_channel c)\<rparr>)"

subsection \<open>Reading and writing\<close>

definition start_read :: "direction \<Rightarrow> ('t, 'cb) connection \<Rightarrow> ('t, 'cb) connection" where
  "start_read dir c = upd_channel dir (\<lambda>ch. ch\<lparr>ch_reading := True\<rparr>) c"

definition shutdown :: "('t, 'cb) connection \<Rightarrow> ('t, 'cb) connection" where
  "shutdown c = c\<lparr>conn_closed := True\<rparr>"

definition start_write ::
  "direction \<Rightarrow> gdb_packet \<Rightarrow> bool \<Rightarrow> 'cb option \<Rightarrow> ('t, 'cb) connection \<Rightarrow> ('t, 'cb) connection" where
  "start_write dir pkt internal cb c =
     (let req = \<lparr>tr_id = next_id c, tr_pkt = pkt, is_internal = internal, on_response_cb = cb\<rparr>;
          data = raw_data pkt
      in (upd_channel dir (\<lambda>ch. ch
            \<lparr>m_transfers := (if pkt_type pkt = Pt_brk then req # m_transfers ch
                             else m_transfers ch @ [req]),
             ch_writes := ch_writes ch @ [(next_id c, length data)],
             ch_sent := ch_sent ch @ [data]\<rparr>) c)\<lparr>next_id := next_id c + 1\<rparr>)"

text \<open>The completion handler of a write. \<open>m_handler\<close> is set in both channels.\<close>

definition write_done ::
  "direction \<Rightarrow> nat \<Rightarrow> bool \<Rightarrow> nat \<Rightarrow> nat \<Rightarrow> ('t, 'cb) connection \<Rightarrow> ('t, 'cb) connection res" where
  "write_done dir ident ec transfered whole c =
     (if transfered \<noteq> whole then Inl Assertion_Failed
      else if \<not> ec
      then (case find (\<lambda>tr. tr_id tr = ident) (m_transfers (get_channel dir c)) of
              None \<Rightarrow> Inl Undefined
            | Some req \<Rightarrow>
                if pkt_type (tr_pkt req) \<noteq> Pt_dat \<or> dir = Responses
                then Inr (upd_channel dir (\<lambda>ch. ch\<lparr>m_transfers := tl (m_transfers ch)\<rparr>) c)
                else Inr c)
      else Inr (shutdown c))"

subsection \<open>The target's calls\<close>

primrec apply_call :: "'cb conn_call \<Rightarrow> ('t, 'cb) connection \<Rightarrow> ('t, 'cb) connection" where
  "apply_call (Internal_Request p cb) c = start_write Requests p True cb c"
| "apply_call (Client_Request p cb) c = start_write Requests p False cb c"
| "apply_call (Internal_Response p) c = start_write Responses p True None c"

definition apply_calls :: "'cb conn_call list \<Rightarrow> ('t, 'cb) connection \<Rightarrow> ('t, 'cb) connection" where
  "apply_calls cs c = foldl (\<lambda>c call. apply_call call c) c cs"

subsection \<open>Packet handlers\<close>

definition on_request ::
  "('t, 'cb) request_fun \<Rightarrow> gdb_packet \<Rightarrow> ('t, 'cb) connection \<Rightarrow> (('t, 'cb) connection \<times> bool) res" where
  "on_request pr pkt c =
     (if pkt_type pkt = Pt_dat
      then let c1 = c\<lparr>conn_seq := conn_seq c + 1\<rparr> in
        (case m_target c1 of
           None \<Rightarrow> Inr (c1, False)
         | Some t \<Rightarrow> bind_res (pr t pkt) (\<lambda>(t', calls, handled).
             Inr (apply_calls calls (c1\<lparr>m_target := Some t'\<rparr>), handled)))
      else Inr (c, False))"

text \<open>The reply to \<open>QStartNoAckMode\<close> switches the acknowledgements off.\<close>

definition ack_mode_update :: "gdb_packet \<Rightarrow> gdb_packet \<Rightarrow> ('t, 'cb) connection \<Rightarrow> ('t, 'cb) connection" where
  "ack_mode_update req_pkt pkt c =
     (if take 15 (pkt_data req_pkt) = ''QStartNoAckMode'' \<and> take 2 (pkt_data pkt) = ''OK''
      then c\<lparr>m_ack_mode := False\<rparr> else c)"

definition on_response ::
  "('t, 'cb) reply_fun \<Rightarrow> gdb_packet \<Rightarrow> ('t, 'cb) connection \<Rightarrow> (('t, 'cb) connection \<times> bool) res" where
  "on_response rp pkt c =
     (case m_transfers (m_requests_channel c) of
        [] \<Rightarrow> Inl Undefined
      | req # _ \<Rightarrow>
          if pkt_type pkt = Pt_dat
          then let c1 = ack_mode_update (tr_pkt req) pkt c in
            bind_res
              (case (on_response_cb req, m_target c1) of
                 (Some cb, Some t) \<Rightarrow>
                   bind_res (rp cb (tr_pkt req) pkt t) (\<lambda>(t', calls).
                   Inr (apply_calls calls (c1\<lparr>m_target := Some t'\<rparr>)))
               | _ \<Rightarrow> Inr c1)
              (\<lambda>c2. Inr (upd_channel Requests (\<lambda>ch. ch\<lparr>m_transfers := tl (m_transfers ch)\<rparr>) c2,
                         is_internal req))
          else if pkt_type pkt = Pt_ack \<and> is_internal req then Inr (c, True)
          else Inr (c, False))"

definition packet_handler ::
  "('t, 'cb) request_fun \<Rightarrow> ('t, 'cb) reply_fun \<Rightarrow> direction \<Rightarrow> gdb_packet \<Rightarrow> ('t, 'cb) connection
     \<Rightarrow> (('t, 'cb) connection \<times> bool) res" where
  "packet_handler pr rp dir = (case dir of Requests \<Rightarrow> on_request pr | Responses \<Rightarrow> on_response rp)"

subsection \<open>process\_data\<close>

text \<open>One turn of the loop on the unconsumed bytes \<open>rest\<close>: the state and what it leaves.\<close>

definition process_packet ::
  "('t, 'cb) request_fun \<Rightarrow> ('t, 'cb) reply_fun \<Rightarrow> direction \<Rightarrow> string \<Rightarrow> ('t, 'cb) connection
     \<Rightarrow> (('t, 'cb) connection \<times> string) res" where
  "process_packet pr rp dir rest c =
     bind_res (parse (m_packet (get_channel dir c)) rest) (\<lambda>(pkt, consumed).
     let c1 = upd_channel dir (\<lambda>ch. ch\<lparr>m_packet := pkt\<rparr>) c in
     if consumed = 0 then Inl Assertion_Failed
     else if is_complete pkt
     then bind_res (packet_handler pr rp dir pkt c1) (\<lambda>(c2, handled).
          let c3 = (if handled then c2 else start_write dir pkt False None c2)
          in Inr (upd_channel dir (\<lambda>ch. ch\<lparr>m_packet := reset (m_packet ch)\<rparr>) c3, drop consumed rest))
     else Inr (c1, drop consumed rest))"

text \<open>The loop, which ends when the buffer is empty.\<close>

function process_loop ::
  "('t, 'cb) request_fun \<Rightarrow> ('t, 'cb) reply_fun \<Rightarrow> direction \<Rightarrow> string \<Rightarrow> ('t, 'cb) connection
     \<Rightarrow> ('t, 'cb) connection res" where
  "process_loop pr rp dir rest c =
     bind_res (process_packet pr rp dir rest c) (\<lambda>(c', rest').
     if rest' = [] then Inr c' else process_loop pr rp dir rest' c')"
  by pat_completeness auto

lemma process_packet_rest:
  "process_packet pr rp dir rest c = Inr (c', rest') \<Longrightarrow> \<exists>n>0. rest' = drop n rest"
  by (auto simp: process_packet_def res_iff Let_def split: if_splits)

termination process_loop
proof (relation "measure (\<lambda>(pr, rp, dir, rest, c). length rest)")
  fix pr :: "('t, 'cb) request_fun" and rp dir rest c r c' rest'
  assume p: "process_packet pr rp dir rest c = Inr r" and r: "(c', rest') = r" and ne: "rest' \<noteq> []"
  from p r have "process_packet pr rp dir rest c = Inr (c', rest')" by simp
  from process_packet_rest [OF this] ne
  show "((pr, rp, dir, rest', c'), pr, rp, dir, rest, c) \<in> measure (\<lambda>(pr, rp, dir, rest, c). length rest)"
    by auto
qed simp

declare process_loop.simps [simp del]

definition process_data ::
  "('t, 'cb) request_fun \<Rightarrow> ('t, 'cb) reply_fun \<Rightarrow> direction \<Rightarrow> string \<Rightarrow> ('t, 'cb) connection
     \<Rightarrow> ('t, 'cb) connection res" where
  "process_data pr rp dir data c =
     bind_res (process_loop pr rp dir data c) (\<lambda>c'. Inr (start_read dir c'))"

text \<open>The completion handler of a read. It closes the data with a NUL, out of the array if it is full.\<close>

definition read_done ::
  "('t, 'cb) request_fun \<Rightarrow> ('t, 'cb) reply_fun \<Rightarrow> direction \<Rightarrow> bool \<Rightarrow> string \<Rightarrow> ('t, 'cb) connection
     \<Rightarrow> ('t, 'cb) connection res" where
  "read_done pr rp dir ec data c =
     (if length data \<ge> buffer_capacity then Inl Undefined
      else if \<not> ec \<and> data \<noteq> [] then process_data pr rp dir data c
      else Inr (shutdown c))"

subsection \<open>Construction\<close>

definition connection_new :: "'t \<Rightarrow> ('t, 'cb) connection" where
  "connection_new t =
     \<lparr>m_requests_channel = channel_new, m_responses_channel = channel_new, conn_seq = 0,
      m_ack_mode = True, m_target = Some t, conn_closed = False, next_id = 0\<rparr>"

subsection \<open>Events\<close>

datatype event =
    Read_Done direction bool string      \<comment> \<open>error, data\<close>
  | Write_Done direction bool nat        \<comment> \<open>error, number of bytes; of the oldest write\<close>

text \<open>
  What the sockets do: a read that was started returns at most a buffer of bytes; writes complete
  in the order they were started, without an error only if everything was written.
\<close>

fun event_ok :: "event \<Rightarrow> ('t, 'cb) connection \<Rightarrow> bool" where
  "event_ok (Read_Done dir ec data) c =
     (ch_reading (get_channel dir c) \<and> length data \<le> buffer_capacity)"
| "event_ok (Write_Done dir ec n) c =
     (case ch_writes (get_channel dir c) of
        [] \<Rightarrow> False
      | (ident, whole) # _ \<Rightarrow> n \<le> whole \<and> (\<not> ec \<longrightarrow> n = whole))"

fun conn_step ::
  "('t, 'cb) request_fun \<Rightarrow> ('t, 'cb) reply_fun \<Rightarrow> event \<Rightarrow> ('t, 'cb) connection
     \<Rightarrow> ('t, 'cb) connection res" where
  "conn_step pr rp (Read_Done dir ec data) c =
     read_done pr rp dir ec data (upd_channel dir (\<lambda>ch. ch\<lparr>ch_reading := False\<rparr>) c)"
| "conn_step pr rp (Write_Done dir ec n) c =
     (case ch_writes (get_channel dir c) of
        [] \<Rightarrow> Inr c
      | (ident, whole) # ws \<Rightarrow>
          write_done dir ident ec n whole (upd_channel dir (\<lambda>ch. ch\<lparr>ch_writes := ws\<rparr>) c))"

text \<open>Runs from the moment both channels are armed.\<close>

inductive conn_run ::
  "('t, 'cb) request_fun \<Rightarrow> ('t, 'cb) reply_fun \<Rightarrow> 't \<Rightarrow> event list \<Rightarrow> ('t, 'cb) connection \<Rightarrow> bool"
  for pr rp t where
  conn_armed: "conn_run pr rp t [] (start_read Responses (start_read Requests (connection_new t)))"
| conn_event: "conn_run pr rp t es c \<Longrightarrow> event_ok e c \<Longrightarrow> conn_step pr rp e c = Inr c'
    \<Longrightarrow> conn_run pr rp t (es @ [e]) c'"

inductive_cases conn_runE: "conn_run pr rp t es c"

end
