(* ===== verification/Gdb_Packets.thy ===== *)
theory Gdb_Packets
  imports Gdb_Packet
begin

unbundle bit_operations_syntax

section \<open>Hexadecimal data and memory requests (gdb\_packets.h, gdb\_packets.cpp, hex2bin.cpp)\<close>

text \<open>
  The conversions between bytes and pairs of hexadecimal digits, the memory read request the
  target handlers send and the decoding of its reply. Buffers written through a pointer are
  returned. The messages printed on \<open>cerr\<close> and \<open>clog\<close> are left out.

  Lemmas: decoding undoes encoding; which requests fit the buffer they are formatted in; the
  value read from a reply is the little-endian value of its bytes.
\<close>

subsection \<open>Digits and bytes\<close>

definition fromhex :: "int \<Rightarrow> int" where
  "fromhex a =
     (if 48 \<le> a \<and> a \<le> 57 then a - 48
      else if 97 \<le> a \<and> a \<le> 102 then a - 97 + 10
      else if 65 \<le> a \<and> a \<le> 70 then a - 65 + 10
      else 0)"

definition tohex :: "byte \<Rightarrow> byte" where
  "tohex nib = (if nib < 10 then 48 + nib else 97 + nib - 10)"

text \<open>The bytes written through the pointer; the function returns how many there are.\<close>

fun hex2bin_count :: "nat \<Rightarrow> string \<Rightarrow> byte list" where
  "hex2bin_count (Suc n) (h # l # r) =
     (if h = CHR 0x00 \<or> l = CHR 0x00 then []
      else of_int (fromhex (schar h) * 16 + fromhex (schar l)) # hex2bin_count n r)"
| "hex2bin_count _ _ = []"

definition hex2bin :: "string \<Rightarrow> nat \<Rightarrow> byte list" where
  "hex2bin hex n = hex2bin_count (min (length hex div 2) n) hex"

text \<open>
  The overload for a vector whose elements take \<open>elem_size\<close> bytes: the vector's storage as
  bytes, before and after, and the returned count.
\<close>

definition hex2bin_vec :: "nat \<Rightarrow> string \<Rightarrow> byte list \<Rightarrow> byte list \<times> nat" where
  "hex2bin_vec elem_size hex bin =
     (let bytes_count = length hex div 2;
          elems0 = bytes_count div elem_size;
          elems = (if bytes_count mod elem_size \<noteq> 0 then elems0 + 1 else elems0);
          n = elems * elem_size;
          buf = take n bin @ replicate (n - length bin) 0;
          w = hex2bin hex bytes_count
      in (w @ drop (length w) buf, length w))"

fun bin2hex :: "byte list \<Rightarrow> string \<Rightarrow> string" where
  "bin2hex [] str = str"
| "bin2hex (ch # r) str =
     bin2hex r (str @ [chr8 (tohex (drop_bit 4 ch AND 0xf)), chr8 (tohex (ch AND 0xf))])"

subsection \<open>Memory requests\<close>

text \<open>\<open>char buf[2 + 8*2 + 1]\<close>\<close>

definition req_buf_size :: nat where
  "req_buf_size = 2 + 8 * 2 + 1"

text \<open>
  \<open>snprintf\<close> writes at most \<open>req_buf_size - 1\<close> characters and a NUL into the zeroed buffer and
  returns the length of the whole text, which \<open>parse\<close> is then told to read from the buffer.
\<close>

definition gdb_memory_read_req :: "u64 \<Rightarrow> u64 \<Rightarrow> gdb_packet res" where
  "gdb_memory_read_req address len =
     bind_res packet_data (\<lambda>pkt.
     let text = ''m'' @ hex_str (unat address) @ '','' @ hex_str (unat len);
         printed = take (req_buf_size - 1) text;
         buf = printed @ replicate (req_buf_size - length printed) (CHR 0x00);
         sz = length text
     in if sz > req_buf_size then Inl Undefined
        else bind_res (parse pkt (take sz buf)) (\<lambda>(pkt, n).
             bind_res (finalize pkt) (\<lambda>(pkt, ok). Inr pkt)))"

definition gdb_memory_read_reply_buf :: "gdb_packet \<Rightarrow> byte list \<Rightarrow> byte list \<times> nat" where
  "gdb_memory_read_reply_buf pkt buf =
     (let w = hex2bin (pkt_data pkt) (length buf) in (w @ drop (length w) buf, length w))"

text \<open>The eight bytes of a \<open>uint64_t\<close>, least significant first.\<close>

fun le_value :: "byte list \<Rightarrow> u64" where
  "le_value [] = 0"
| "le_value (b # bs) = ucast b + 256 * le_value bs"

definition gdb_memory_read_reply :: "gdb_packet \<Rightarrow> u64" where
  "gdb_memory_read_reply pkt =
     (let w = hex2bin (pkt_data pkt) 8 in le_value (w @ drop (length w) (replicate 8 0)))"

subsection \<open>The hex2bin program\<close>

text \<open>Exit status and standard output of \<open>main\<close> on the arguments after the program's name.\<close>

definition hex2bin_main :: "string list \<Rightarrow> int \<times> string" where
  "hex2bin_main args =
     (if args = [] then (1, [])
      else (0, concat (map (\<lambda>arg.
              arg @ '': '' @ map chr8 (fst (hex2bin_vec 1 arg [])) @ [CHR 0x0A]) args)))"

subsection \<open>Decoding undoes encoding\<close>

lemma fromhex_hexval: "fromhex (schar c) = (case hexval c of Some n \<Rightarrow> int n | None \<Rightarrow> 0)"
proof (cases "(of_char c :: nat) < 128")
  case True
  then show ?thesis by (auto simp: schar_ascii fromhex_def hexval_def Let_def)
next
  case False
  have "uint (ord8 c) = int (of_char c)"
    by (metis of_nat_unat unat_ord8)
  then have "schar c = signed_take_bit 7 (int (of_char c))"
    by (simp add: schar_def sint_uint)
  moreover have "signed_take_bit 7 (int (of_char c)) \<le> int (of_char c) - 2 ^ Suc 7"
    using False by (intro signed_take_bit_int_less_eq) simp
  moreover have "int (of_char c) < 2 ^ Suc 7"
    using nat_of_char_less_256 [of c] by simp
  ultimately have "schar c < 0" by linarith
  with False show ?thesis by (simp add: fromhex_def hexval_def Let_def)
qed

lemma of_char_chr8 [simp]: "of_char (chr8 b) = unat b"
proof -
  have "unat b < 2 ^ LENGTH(8)" by (rule unsigned_less)
  then show ?thesis by (simp add: chr8_def)
qed

lemma hexval_tohex:
  assumes "w < 16"
  shows "hexval (chr8 (tohex w)) = Some (unat w)"
proof -
  have w: "unat w < 16" using assms by (simp add: word_less_nat_alt)
  then have "unat (48 + w) = 48 + unat w" "unat (97 + w - 10) = 87 + unat w"
    by (simp_all add: unat_word_ariths)
  with w show ?thesis
    by (auto simp: tohex_def hexval_def Let_def word_less_nat_alt)
qed

lemma nibbles:
  fixes b :: byte
  shows "drop_bit 4 b AND 0xf < 16" and "b AND 0xf < 16"
    and "unat (drop_bit 4 b AND 0xf) = unat b div 16" and "unat (b AND 0xf) = unat b mod 16"
proof -
  have low: "unat (x AND 0xf) = unat x mod 16" for x :: byte
  proof -
    have "x AND 0xf = take_bit 4 x" by (simp add: take_bit_eq_mask mask_eq_exp_minus_1)
    then show ?thesis by (simp only: unsigned_take_bit_eq) (simp add: take_bit_eq_mod)
  qed
  have "unat b < 2 ^ LENGTH(8)" by (rule unsigned_less)
  then have b: "unat b div 16 < 16" by auto
  have "unat (drop_bit 4 b) = unat b div 16"
    by (simp add: drop_bit_eq_div unat_div_distrib)
  with low [of "drop_bit 4 b"] b show d: "unat (drop_bit 4 b AND 0xf) = unat b div 16"
    by simp
  show r: "unat (b AND 0xf) = unat b mod 16" by (rule low)
  show "drop_bit 4 b AND 0xf < 16" using d b by (simp add: word_less_nat_alt)
  show "b AND 0xf < 16" using r by (simp add: word_less_nat_alt)
qed

definition hex_pair :: "byte \<Rightarrow> string" where
  "hex_pair b = [chr8 (tohex (drop_bit 4 b AND 0xf)), chr8 (tohex (b AND 0xf))]"

lemma bin2hex_eq: "bin2hex bs str = str @ concat (map hex_pair bs)"
  by (induction bs arbitrary: str) (auto simp: hex_pair_def)

lemma is_hex_pair: "c \<in> set (hex_pair b) \<Longrightarrow> is_hex c"
  using nibbles(1,2) [of b] by (auto simp: hex_pair_def is_hex_def hexval_tohex)

lemma length_hex_pairs [simp]: "length (concat (map hex_pair bs)) = 2 * length bs"
  by (induction bs) (auto simp: hex_pair_def)

lemma is_hex_pairs: "c \<in> set (concat (map hex_pair bs)) \<Longrightarrow> is_hex c"
  using is_hex_pair by auto

lemma plain_hex: "\<forall>c\<in>set s. is_hex c \<Longrightarrow> plain s"
  using hex_not_special by (auto simp: plain_def)

lemma plain_bin2hex [simp]: "plain (bin2hex bs [])"
  by (rule plain_hex) (auto simp: bin2hex_eq dest: is_hex_pair)

lemma plain_hex_str [simp]: "plain (hex_str n)"
  by (rule plain_hex) (auto intro: hex_str_all_hex)

lemma hex_not_NUL: "is_hex c \<Longrightarrow> c \<noteq> CHR 0x00"
  by (auto simp: is_hex_def hexval_def Let_def)

lemma hex2bin_count_pair:
  "hex2bin_count (Suc n) (hex_pair b @ r) = b # hex2bin_count n r"
proof -
  let ?h = "chr8 (tohex (drop_bit 4 b AND 0xf))" and ?l = "chr8 (tohex (b AND 0xf))"
  have v: "hexval ?h = Some (unat b div 16)" "hexval ?l = Some (unat b mod 16)"
    using nibbles [of b] by (simp_all add: hexval_tohex)
  then have "?h \<noteq> CHR 0x00" "?l \<noteq> CHR 0x00"
    using hex_not_NUL by (auto simp: is_hex_def)
  moreover have "fromhex (schar ?h) * 16 + fromhex (schar ?l) = uint b"
  proof -
    have "int (unat b div 16 * 16 + unat b mod 16) = int (unat b)" by simp
    then show ?thesis using v by (simp add: fromhex_hexval zdiv_int zmod_int)
  qed
  ultimately show ?thesis by (simp add: hex_pair_def)
qed

lemma hex2bin_count_pairs:
  "hex2bin_count n (concat (map hex_pair bs) @ r) =
     (if n \<le> length bs then take n bs else bs @ hex2bin_count (n - length bs) r)"
proof (induction bs arbitrary: n)
  case Nil
  then show ?case by simp
next
  case (Cons b bs)
  then show ?case by (cases n) (simp_all add: hex2bin_count_pair)
qed

lemma hex2bin_bin2hex [simp]: "hex2bin (bin2hex bs []) n = take n bs"
  using hex2bin_count_pairs [of "min (length bs) n" bs "[]"]
  by (simp add: hex2bin_def bin2hex_eq min_def)

lemma length_bin2hex [simp]: "length (bin2hex bs []) = 2 * length bs"
  by (simp add: bin2hex_eq)

interpretation hex_codec: codec "\<lambda>bs. bin2hex bs []" "\<lambda>s. Some (hex2bin s (length s div 2))" "\<lambda>_. True"
  by unfold_locales simp

subsection \<open>Memory requests and replies\<close>

definition read_req_text :: "u64 \<Rightarrow> u64 \<Rightarrow> string" where
  "read_req_text address len = ''m'' @ hex_str (unat address) @ '','' @ hex_str (unat len)"

lemma plain_read_req_text [simp]: "plain (read_req_text a n)"
  by (simp add: read_req_text_def)

lemma length_read_req_text:
  "length (read_req_text a n) = length (hex_str (unat a)) + length (hex_str (unat n)) + 2"
  by (simp add: read_req_text_def)

lemma read_req_unfold:
  "gdb_memory_read_req a n =
     (if length (read_req_text a n) > 19 then Inl Undefined
      else bind_res
        (parse (open_packet []) (take (length (read_req_text a n))
          (take 18 (read_req_text a n) @
           replicate (19 - length (take 18 (read_req_text a n))) (CHR 0x00))))
        (\<lambda>(pkt, n). bind_res (finalize pkt) (\<lambda>(pkt, ok). Inr pkt)))"
  unfolding gdb_memory_read_req_def read_req_text_def [symmetric] packet_data_eq bind_res_simps
    Let_def req_buf_size_def by simp

lemma plain_take: "plain s \<Longrightarrow> plain (take n s)"
  by (auto simp: plain_def dest: in_set_takeD)

text \<open>Whatever is formatted, the packet is complete.\<close>

lemma read_req_Inr:
  assumes "gdb_memory_read_req a n = Inr p"
  shows "\<exists>s. plain s \<and> p = data_packet s"
proof -
  let ?s = "take (length (read_req_text a n))
          (take 18 (read_req_text a n) @
           replicate (19 - length (take 18 (read_req_text a n))) (CHR 0x00))"
  have "plain ?s" by (intro plain_take) (simp add: plain_take)
  moreover from this assms have "p = data_packet ?s"
    unfolding read_req_unfold by (auto split: if_splits)
  ultimately show ?thesis by blast
qed

lemma read_req_fits:
  "length (read_req_text a n) \<le> 18 \<Longrightarrow> gdb_memory_read_req a n = Inr (data_packet (read_req_text a n))"
  by (simp add: read_req_unfold)

lemma read_req_small [simp]:
  assumes "unat a < 2 ^ 32" and "unat n < 2 ^ 32"
  shows "gdb_memory_read_req a n = Inr (data_packet (read_req_text a n))"
proof -
  have "length (hex_str (unat a)) \<le> 8" "length (hex_str (unat n)) \<le> 8"
    using assms by (intro length_hex_str_le; simp)+
  then show ?thesis by (intro read_req_fits) (simp add: length_read_req_text)
qed

fun le_bytes :: "nat \<Rightarrow> u64 \<Rightarrow> byte list" where
  "le_bytes 0 w = []"
| "le_bytes (Suc n) w = ucast w # le_bytes n (drop_bit 8 w)"

lemma length_le_bytes [simp]: "length (le_bytes n w) = n"
  by (induction n arbitrary: w) auto

lemma byte_split:
  fixes w :: u64
  shows "ucast (ucast w :: byte) + 256 * drop_bit 8 w = w"
proof -
  have "ucast (ucast w :: byte) = take_bit 8 w"
    by (rule bit_word_eqI) (auto simp: bit_simps)
  moreover have "256 * drop_bit 8 w = push_bit 8 (drop_bit 8 w)"
    by (simp add: push_bit_eq_mult)
  ultimately show ?thesis
    by (metis add.commute bits_ident)
qed

lemma drop_bit_small:
  fixes w :: u64
  assumes "unat w < 2 ^ (8 * Suc n)"
  shows "unat (drop_bit 8 w) < 2 ^ (8 * n)"
proof -
  have "unat (drop_bit 8 w) = unat w div 256"
    by (simp add: drop_bit_eq_div unat_div_distrib)
  moreover from assms have "unat w < 2 ^ (8 * n) * 256" by (simp add: power_add)
  ultimately show ?thesis by (simp add: less_mult_imp_div_less)
qed

lemma le_value_le_bytes: "unat w < 2 ^ (8 * n) \<Longrightarrow> le_value (le_bytes n w) = w"
proof (induction n arbitrary: w)
  case 0
  then have "unat w = 0" by simp
  then show ?case by (simp add: unat_eq_zero)
next
  case (Suc n)
  from Suc.IH [OF drop_bit_small [OF Suc.prems]] show ?case
    using byte_split [of w] by simp
qed

lemma le_value_zeros [simp]: "le_value (bs @ replicate n 0) = le_value bs"
proof (induction bs)
  case Nil
  show ?case by (induction n) auto
qed simp

lemma read_reply_value:
  assumes "pkt_data pkt = bin2hex bs []" and "length bs \<le> 8"
  shows "gdb_memory_read_reply pkt = le_value bs"
  using assms by (simp add: gdb_memory_read_reply_def)

subsection \<open>Properties\<close>

text \<open>C26: Converting bytes to hexadecimal and back gives the bytes, the count returned is their
  number, and two byte strings with the same digits are equal.\<close>

theorem hex_roundtrip:
  "hex2bin_vec 1 (bin2hex bs []) bin = (bs, length bs)
   \<and> (bin2hex bs [] = bin2hex bs' [] \<longleftrightarrow> bs = bs')"
  using hex_codec.enc_eq_iff [of bs bs'] by (simp add: hex2bin_vec_def)

text \<open>C35: Which memory requests are well formed. When the digits of address and length together
  are at most 16 the packet is the request for exactly that address and length; with 17 the
  buffer's final NUL takes the place of the last digit; with more the packet is read from beyond
  the buffer.\<close>

theorem read_req_bounds:
  fixes a n :: u64
  defines "digits \<equiv> length (hex_str (unat a)) + length (hex_str (unat n))"
  shows "gdb_memory_read_req a n =
    (if digits \<le> 16 then Inr (data_packet (''m'' @ hex_str (unat a) @ '','' @ hex_str (unat n)))
     else if digits = 17
     then Inr (data_packet (''m'' @ hex_str (unat a) @ '','' @ butlast (hex_str (unat n))
                            @ [CHR 0x00]))
     else Inl Undefined)"
proof -
  let ?t = "read_req_text a n"
  have l: "length ?t = digits + 2" by (simp add: length_read_req_text digits_def)
  consider "digits \<le> 16" | "digits = 17" | "17 < digits" by linarith
  then show ?thesis
  proof cases
    case 1
    with l read_req_fits [of a n] show ?thesis by (simp add: read_req_text_def)
  next
    case 2
    define u where "u = ''m'' @ hex_str (unat a) @ '','' @ butlast (hex_str (unat n))"
    have "take 18 ?t = butlast ?t" using l 2 by (simp add: butlast_conv_take)
    also have "butlast ?t = u" by (simp add: read_req_text_def butlast_append u_def)
    finally have t: "take 18 ?t = u" .
    have "plain (butlast (hex_str (unat n)))"
      using plain_hex_str [of "unat n"] by (auto simp: plain_def dest: in_set_butlastD)
    then have "plain (u @ [CHR 0x00])" by (simp add: u_def)
    moreover have "length u = 18" using l 2 unfolding t [symmetric] by simp
    ultimately have "gdb_memory_read_req a n = Inr (data_packet (u @ [CHR 0x00]))"
      using 2 l by (simp add: read_req_unfold t)
    with 2 show ?thesis by (simp add: u_def)
  next
    case 3
    with l show ?thesis by (simp add: read_req_unfold)
  qed
qed

text \<open>C27: The value read from the reply to a request for \<open>n \<le> 8\<close> bytes, when the reply holds the
  bytes of memory in hexadecimal, is the little-endian number stored there.\<close>

theorem read_reply_little_endian:
  assumes "n \<le> 8" and "unat w < 2 ^ (8 * n)" and "pkt_data pkt = bin2hex (le_bytes n w) []"
  shows "gdb_memory_read_reply pkt = w"
  using read_reply_value [OF assms(3)] assms(1) le_value_le_bytes [OF assms(2)] by simp

theorem read_reply_little_endian_witness:
  "gdb_memory_read_reply (data_packet ''78563412'') = 0x12345678"
proof -
  have 1: "unat (0x12345678 :: u64) < 2 ^ (8 * 4)" by simp
  have 2: "pkt_data (data_packet ''78563412'') = bin2hex (le_bytes 4 0x12345678) []" by code_simp
  show ?thesis by (rule read_reply_little_endian [OF _ 1 2]) simp
qed

text \<open>A target's error reply to a memory read is not recognised: \<open>E\<close> and two digits are
  decoded as if they were memory, to the value \<open>0xe0\<close> plus the first digit.\<close>

theorem read_reply_error_decoded:
  assumes "pkt_data pkt = [CHR ''E'', d1, d2]" and "hexval d1 = Some v"
  shows "gdb_memory_read_reply pkt = 0xe0 + of_nat v"
proof -
  have "d1 \<noteq> CHR 0x00" using assms(2) by (auto simp: hexval_def Let_def)
  moreover have "fromhex (schar (CHR ''E'')) = 14" by (simp add: fromhex_hexval hexval_def)
  moreover have "fromhex (schar d1) = int v" using assms(2) by (simp add: fromhex_hexval)
  moreover have "hex2bin (pkt_data pkt) 8 = hex2bin_count (Suc 0) [CHR ''E'', d1, d2]"
    using assms(1) by (simp add: hex2bin_def)
  ultimately have "hex2bin (pkt_data pkt) 8 = [of_int (14 * 16 + int v)]" by simp
  moreover have "ucast (of_int (14 * 16 + int v) :: byte) = (0xe0 + of_nat v :: u64)"
  proof -
    have "v < 16" using assms(2) by (rule hexval_bound)
    have "uint (of_int (14 * 16 + int v) :: byte) = (14 * 16 + int v) mod 2 ^ LENGTH(8)"
      by (rule uint_word_of_int)
    also have "\<dots> = 224 + int v" using \<open>v < 16\<close> by simp
    finally have "ucast (of_int (14 * 16 + int v) :: byte) = (of_int (224 + int v) :: u64)"
      by (simp only: ucast_eq)
    then show ?thesis by simp
  qed
  ultimately show ?thesis by (simp add: gdb_memory_read_reply_def)
qed

theorem read_reply_error_decoded_witness:
  "gdb_memory_read_reply (data_packet ''E01'') = 0xe0"
proof -
  have "hexval (CHR ''0'') = Some 0" by code_simp
  from read_reply_error_decoded [of "data_packet ''E01''", OF _ this] show ?thesis by simp
qed

end
