(* ===== verification/Threadid.thy ===== *)
theory Threadid
  imports Cstdlib
begin

section \<open>Thread identifiers (threadid.h)\<close>

text \<open>
  \<open>threadid<uint32_t>\<close>, the only instance of the template, with the process and thread numbers
  as 64-bit words read as \<open>int64_t\<close>. \<open>parse_id\<close> catches every exception and answers 0; the
  constructor reads \<open>id[0]\<close> unchecked.

  Lemmas: parsing what was printed gives the identifier back, for the identifiers of the
  protocol (non-negative numbers and -1); what the parser makes of other negative numbers; when
  the comparison is symmetric.
\<close>

type_synonym i64 = "64 word"

record threadid =
  m_multiprocess :: bool
  m_process :: i64
  m_threadid :: i64

definition tid_mask :: u64 where
  "tid_mask = 0xFFFFFFFF"

definition tid_any :: i64 where
  "tid_any = 0"

definition tid_all :: i64 where
  "tid_all = - 1"

definition parse_id :: "string \<Rightarrow> i64" where
  "parse_id view =
     (case bind_res (sv_at view 0) (\<lambda>c.
        if c = CHR ''-''
        then bind_res (sv_substr view 1) (\<lambda>v.
             bind_res (sv_compare_eq v 0 1 ''1'') (\<lambda>one.
             if one then Inr tid_all
             else bind_res (stoull16 v) (\<lambda>value. Inr (tid_mask - value))))
        else bind_res (stoull16 view) (\<lambda>value. Inr value))
      of Inl e \<Rightarrow> 0 | Inr v \<Rightarrow> v)"

definition make_id :: "i64 \<Rightarrow> string" where
  "make_id ident =
     (let result = (if sint ident < 0 then ''-'' else []);
          new_id = (if sint ident < 0 then - 1 * ident else ident)
      in result @ hex_str (unat new_id))"

definition threadid_of_string :: "string \<Rightarrow> threadid res" where
  "threadid_of_string ident =
     bind_res (sv_index ident 0) (\<lambda>c.
     if c = CHR ''p''
     then let view = drop 1 ident in
          (case sv_find view (CHR ''.'') 0 of
             None \<Rightarrow> Inr \<lparr>m_multiprocess = True, m_process = parse_id view, m_threadid = tid_all\<rparr>
           | Some pos \<Rightarrow>
               Inr \<lparr>m_multiprocess = True, m_process = parse_id (take pos view),
                    m_threadid = parse_id (drop (pos + 1) view)\<rparr>)
     else Inr \<lparr>m_multiprocess = False, m_process = 0, m_threadid = parse_id ident\<rparr>)"

definition threadid_of_tid :: "i64 \<Rightarrow> threadid" where
  "threadid_of_tid tid = \<lparr>m_multiprocess = False, m_process = 0, m_threadid = tid\<rparr>"

definition threadid_of_pid_tid :: "i64 \<Rightarrow> i64 \<Rightarrow> threadid" where
  "threadid_of_pid_tid pid tid = \<lparr>m_multiprocess = True, m_process = pid, m_threadid = tid\<rparr>"

definition threadid_default :: threadid where
  "threadid_default = \<lparr>m_multiprocess = False, m_process = 0, m_threadid = 0\<rparr>"

definition tid_to_string :: "threadid \<Rightarrow> string" where
  "tid_to_string t =
     (if m_multiprocess t then CHR ''p'' # make_id (m_process t) @ ''.'' else [])
     @ make_id (m_threadid t)"

text \<open>\<open>operator==\<close>\<close>

definition tid_eq :: "threadid \<Rightarrow> threadid \<Rightarrow> bool" where
  "tid_eq lhs rhs =
     (m_threadid lhs = m_threadid rhs \<and>
      (if m_multiprocess lhs then m_process lhs = m_process rhs else True))"

subsection \<open>Printing and parsing\<close>

text \<open>The numbers the protocol uses: 0 (any), -1 (all) and positive ones.\<close>

definition id_ok :: "i64 \<Rightarrow> bool" where
  "id_ok v = (0 \<le> sint v \<or> v = - 1)"

lemma parse_id_hex [simp]: "parse_id (hex_str (unat v)) = v"
proof -
  obtain c s where cs: "hex_str (unat v) = c # s" by (cases "hex_str (unat v)") auto
  then have "is_hex c" using hex_str_all_hex [of c "unat v"] by simp
  then have "c \<noteq> CHR ''-''" using hex_not_special by blast
  moreover have "unat v < 2 ^ LENGTH(64)" by (rule unsigned_less)
  then have "stoull16 (hex_str (unat v)) = Inr v" by (simp add: stoull16_def)
  ultimately show ?thesis using cs by (simp add: parse_id_def sv_at_def)
qed

lemma parse_id_make_id [simp]: "id_ok v \<Longrightarrow> parse_id (make_id v) = v"
proof -
  assume v: "id_ok v"
  show ?thesis
  proof (cases "0 \<le> sint v")
    case True
    then show ?thesis by (simp add: make_id_def)
  next
    case False
    with v have "v = - 1" by (simp add: id_ok_def)
    then have "make_id v = ''-1''" by (simp add: make_id_def hex_str.simps hex_digit_def)
    moreover have "parse_id ''-1'' = tid_all"
      by (simp add: parse_id_def sv_at_def sv_substr_def)
    ultimately show ?thesis using \<open>v = - 1\<close> by (simp add: tid_all_def)
  qed
qed

lemma make_id_chars: "c \<in> set (make_id v) \<Longrightarrow> c = CHR ''-'' \<or> is_hex c"
  by (auto simp: make_id_def Let_def split: if_splits dest: hex_str_all_hex)

lemma make_id_not_Nil [simp]: "make_id v \<noteq> []"
  by (simp add: make_id_def Let_def)

lemma make_id_no_p: "CHR ''p'' \<notin> set (make_id v)" and make_id_no_dot: "CHR ''.'' \<notin> set (make_id v)"
  using make_id_chars hex_not_special by fastforce+

lemma sv_find_at:
  "c \<notin> set s \<Longrightarrow> sv_find (s @ c # t) c 0 = Some (length s)"
proof -
  assume "c \<notin> set s"
  then have "takeWhile (\<lambda>x. x \<noteq> c) (s @ c # t) = s"
    by (intro takeWhile_append_stop) auto
  then show ?thesis by (simp add: sv_find_def)
qed

lemma threadid_of_make_id:
  "threadid_of_string (make_id v) =
     Inr \<lparr>m_multiprocess = False, m_process = 0, m_threadid = parse_id (make_id v)\<rparr>"
proof -
  obtain c s where cs: "make_id v = c # s" by (cases "make_id v") auto
  then have "c \<noteq> CHR ''p''" using make_id_no_p [of v] by auto
  with cs show ?thesis by (simp add: threadid_of_string_def sv_index_def)
qed

lemma threadid_of_pid_string:
  "threadid_of_string (CHR ''p'' # make_id p @ CHR ''.'' # make_id v) =
     Inr \<lparr>m_multiprocess = True, m_process = parse_id (make_id p),
          m_threadid = parse_id (make_id v)\<rparr>"
  using sv_find_at [OF make_id_no_dot, of p "make_id v"]
  by (simp add: threadid_of_string_def sv_index_def Let_def)

text \<open>Identifiers with a canonical form: without a process number it is 0.\<close>

definition tid_valid :: "threadid \<Rightarrow> bool" where
  "tid_valid t = (id_ok (m_process t) \<and> id_ok (m_threadid t)
     \<and> (m_multiprocess t \<or> m_process t = 0))"

definition tid_decode :: "string \<Rightarrow> threadid option" where
  "tid_decode s = (case threadid_of_string s of Inl e \<Rightarrow> None | Inr t \<Rightarrow> Some t)"

lemma threadid_roundtrip_aux: "tid_valid t \<Longrightarrow> threadid_of_string (tid_to_string t) = Inr t"
  by (cases t)
    (auto simp: tid_valid_def tid_to_string_def threadid_of_make_id threadid_of_pid_string)

interpretation tid_codec: codec tid_to_string tid_decode tid_valid
  by unfold_locales (simp add: tid_decode_def threadid_roundtrip_aux)

subsection \<open>Properties\<close>

text \<open>C25: Parsing the text of a thread identifier of the protocol (numbers that are not negative,
  or -1) gives the identifier back, and two such identifiers with the same text are equal.\<close>

theorem threadid_roundtrip:
  assumes "tid_valid t" and "tid_valid u"
  shows "threadid_of_string (tid_to_string t) = Inr t
    \<and> (tid_to_string t = tid_to_string u \<longleftrightarrow> t = u)"
  using threadid_roundtrip_aux [OF assms(1)] tid_codec.enc_eq_iff [OF assms] by blast

theorem threadid_roundtrip_witness:
  "threadid_of_string ''p1.-1'' = Inr (threadid_of_pid_tid 1 (- 1))"
proof -
  let ?t = "threadid_of_pid_tid 1 (- 1)"
  have 1: "tid_valid ?t" by code_simp
  have "tid_to_string ?t = ''p1.-1''" by code_simp
  with threadid_roundtrip [OF 1 1] show ?thesis by simp
qed

text \<open>A negative number other than one whose digits begin with 1 is read as the mask minus
  its magnitude, which is one less than its 32-bit two's complement; digits that begin with 1
  are read as -1 whatever follows. So of the negative numbers only -1 survives being printed
  and parsed.\<close>

theorem parse_id_negative:
  assumes "ds \<noteq> []" and "\<forall>c\<in>set ds. is_hex c" and "hex_value ds < 2 ^ 64"
  shows "parse_id (CHR ''-'' # ds) =
    (if hd ds = CHR ''1'' then tid_all else 2 ^ 32 - of_nat (hex_value ds) - 1)"
proof -
  obtain d r where ds: "ds = d # r" using assms(1) by (cases ds) auto
  have "strto16 (ds @ []) = Some (False, hex_value ds)"
    using assms by (intro strto16_digits) auto
  then have "stoull16 ds = Inr (of_nat (hex_value ds))"
    using assms(3) by (simp add: stoull16_def)
  with ds show ?thesis
    by (simp add: parse_id_def sv_at_def sv_substr_def tid_mask_def)
qed

theorem parse_id_negative_witness:
  "parse_id ''-10'' = - 1 \<and> parse_id ''-2'' = 0xFFFFFFFD"
proof -
  have h: "is_hex (CHR ''1'')" "is_hex (CHR ''0'')" "is_hex (CHR ''2'')" by code_simp+
  have v: "hex_value ''10'' = 16" "hex_value ''2'' = 2" by code_simp+
  have "parse_id (CHR ''-'' # ''10'') = tid_all"
    by (subst parse_id_negative) (simp_all add: h v)
  moreover have "parse_id (CHR ''-'' # ''2'') = 2 ^ 32 - of_nat 2 - 1"
    by (subst parse_id_negative) (simp_all add: h v)
  moreover have "(2 ^ 32 - of_nat 2 - 1 :: u64) = 0xFFFFFFFD" by simp
  ultimately show ?thesis unfolding tid_all_def by metis
qed

text \<open>The comparison of thread identifiers is reflexive, and symmetric except in one
  situation: the thread numbers agree, the process numbers do not, and only one of the two
  identifiers has a process.\<close>

theorem tid_eq_asymmetry:
  "tid_eq a a \<and>
   (tid_eq a b \<noteq> tid_eq b a \<longleftrightarrow>
      m_threadid a = m_threadid b \<and> m_process a \<noteq> m_process b
      \<and> m_multiprocess a \<noteq> m_multiprocess b)"
  by (cases "m_multiprocess a"; cases "m_multiprocess b"; simp add: tid_eq_def; metis)

end
