(* ===== verification/Std_Map.thy ===== *)
theory Std_Map
  imports Prelude
begin

section \<open>std::map\<close>

text \<open>
  \<open>std::map\<close> as the list of its entries in the order of iteration, which is ascending by key.
  The contract its clients rely on is the locale \<open>ordered_map\<close>; the list operations are shown to
  meet it.
\<close>

type_synonym ('k, 'v) smap = "('k \<times> 'v) list"

definition smap_find :: "'k \<Rightarrow> ('k, 'v) smap \<Rightarrow> 'v option" where
  "smap_find k m = map_of m k"

text \<open>\<open>m[k] = v\<close>\<close>

fun smap_put :: "'k::linorder \<Rightarrow> 'v \<Rightarrow> ('k, 'v) smap \<Rightarrow> ('k, 'v) smap" where
  "smap_put k v [] = [(k, v)]"
| "smap_put k v ((k', v') # m) =
     (if k < k' then (k, v) # (k', v') # m
      else if k = k' then (k, v) # m
      else (k', v') # smap_put k v m)"

definition smap_ok :: "('k::linorder, 'v) smap \<Rightarrow> bool" where
  "smap_ok m = (sorted (map fst m) \<and> distinct (map fst m))"

locale ordered_map =
  fixes find :: "'k::linorder \<Rightarrow> 'm \<Rightarrow> 'v option"
    and put :: "'k \<Rightarrow> 'v \<Rightarrow> 'm \<Rightarrow> 'm"
    and keep :: "('k \<Rightarrow> bool) \<Rightarrow> 'm \<Rightarrow> 'm"
    and entries :: "'m \<Rightarrow> ('k \<times> 'v) list"
    and ok :: "'m \<Rightarrow> bool"
  assumes find_put: "ok m \<Longrightarrow> find k (put k' v m) = (if k = k' then Some v else find k m)"
    and find_keep: "ok m \<Longrightarrow> find k (keep P m) = (if P k then find k m else None)"
    and ok_put: "ok m \<Longrightarrow> ok (put k v m)"
    and ok_keep: "ok m \<Longrightarrow> ok (keep P m)"
    and entries_find: "ok m \<Longrightarrow> (k, v) \<in> set (entries m) \<longleftrightarrow> find k m = Some v"
begin

definition vals :: "'m \<Rightarrow> 'v set" where
  "vals m = snd ` set (entries m)"

lemma vals_find: "ok m \<Longrightarrow> vals m = {v. \<exists>k. find k m = Some v}"
proof -
  assume m: "ok m"
  have "v \<in> vals m \<longleftrightarrow> (\<exists>k. (k, v) \<in> set (entries m))" for v
    unfolding vals_def by force
  with entries_find [OF m] show ?thesis by blast
qed

lemma vals_put: "ok m \<Longrightarrow> vals (put k v m) \<subseteq> insert v (vals m)"
  by (auto simp: vals_find ok_put find_put split: if_splits)

lemma vals_keep: "ok m \<Longrightarrow> vals (keep P m) \<subseteq> vals m"
  by (auto simp: vals_find ok_keep find_keep split: if_splits)

lemma put_twice: "ok m \<Longrightarrow> find k (put j w (put j v m)) = find k (put j w m)"
  by (simp add: find_put ok_put)

end

definition smap_keep :: "('k \<Rightarrow> bool) \<Rightarrow> ('k, 'v) smap \<Rightarrow> ('k, 'v) smap" where
  "smap_keep P m = filter (\<lambda>(k, v). P k) m"

lemma set_smap_put_keys: "fst ` set (smap_put k v m) = insert k (fst ` set m)"
  by (induction k v m rule: smap_put.induct) (simp_all add: insert_commute)

lemma smap_ok_Cons:
  "smap_ok ((k, v) # m) \<longleftrightarrow> (\<forall>k'\<in>set (map fst m). k < k') \<and> smap_ok m"
  by (auto simp: smap_ok_def order.strict_iff_order)

lemma smap_ok_put: "smap_ok m \<Longrightarrow> smap_ok (smap_put k v m)"
proof (induction m)
  case Nil
  then show ?case by (simp add: smap_ok_def)
next
  case (Cons e m)
  obtain k' v' where e: "e = (k', v')" by (cases e)
  from Cons have IH: "smap_ok (smap_put k v m)" by (simp add: e smap_ok_Cons)
  note keys = set_smap_put_keys [of k v m]
  consider "k < k'" | "k = k'" | "k' < k" by fastforce
  then show ?case
  proof cases
    case 1
    with Cons.prems show ?thesis by (auto simp: e smap_ok_Cons)
  next
    case 2
    with Cons.prems show ?thesis by (simp add: e smap_ok_Cons)
  next
    case 3
    with Cons.prems IH keys show ?thesis by (auto simp: e smap_ok_Cons)
  qed
qed

lemma smap_find_put:
  "smap_ok m \<Longrightarrow> smap_find k (smap_put k' v m) = (if k = k' then Some v else smap_find k m)"
  by (induction m) (auto simp: smap_find_def smap_ok_Cons)

lemma smap_find_keep: "smap_find k (smap_keep P m) = (if P k then smap_find k m else None)"
  by (induction m) (auto simp: smap_find_def smap_keep_def)

lemma smap_ok_keep: "smap_ok m \<Longrightarrow> smap_ok (smap_keep P m)"
  by (auto simp: smap_ok_def smap_keep_def sorted_filter distinct_map_filter)

interpretation smap: ordered_map smap_find smap_put smap_keep "\<lambda>m. m" smap_ok
  by unfold_locales
    (simp_all add: smap_find_put smap_find_keep smap_ok_put smap_ok_keep,
     simp add: smap_find_def smap_ok_def)

end
