(* ===== verification/Mb_State.thy ===== *)
theory Mb_State
  imports Mb_Registers Target Threadid Std_Map
begin

section \<open>The FreeRTOS target: state (target\_mb\_freertos.h, target\_mb\_freertos.cpp)\<close>

text \<open>
  The constants of the FreeRTOS layout, the table of the symbols the target asks the client for,
  the state of \<open>target_mb_freertos\<close> and the operations that only touch it: the construction,
  the identifiers it gives to threads and the calls it queues on the connection.

  The response callbacks, lambdas in the code, are the values of \<open>mb_cb\<close>, one for each lambda with
  what it captures. A captured reference to an element of \<open>m_threading.lists\<close> or
  \<open>m_threading.info\<close>, and the iterator \<open>list_it\<close>, is an index together with the generation of
  its container; assigning \<open>m_threading\<close>, clearing \<open>lists\<close> or reserving room in it starts a new
  generation (\<open>lists_gen\<close>, \<open>info_gen\<close>), and using a reference of an older one is \<open>Undefined\<close>.
  The two counters are the only fields without a counterpart in the class; \<open>m_conn\<close> holds the
  calls made through the reference to the connection, in order.
\<close>

subsection \<open>Constants\<close>

definition POINTER_SIZE :: u64 where "POINTER_SIZE = 4"
definition THREAD_COUNTER_SIZE :: u64 where "THREAD_COUNTER_SIZE = 4"
definition LIST_NEXT_OFFSET :: u64 where "LIST_NEXT_OFFSET = 16"
definition LIST_WIDTH :: u64 where "LIST_WIDTH = 20"
definition LIST_ELEM_NEXT_OFFSET :: u64 where "LIST_ELEM_NEXT_OFFSET = 8"
definition LIST_ELEM_CONTENT_OFFSET :: u64 where "LIST_ELEM_CONTENT_OFFSET = 12"
definition THREAD_STACK_OFFSET :: u64 where "THREAD_STACK_OFFSET = 0"
definition THREAD_NAME_OFFSET :: u64 where "THREAD_NAME_OFFSET = 52"
definition THREAD_NAME_SIZE :: u64 where "THREAD_NAME_SIZE = 10"
definition MAX_PRIORITIES :: u64 where "MAX_PRIORITIES = 8"
definition THREAD_ID_CURRENT_EXECUTION :: u64 where "THREAD_ID_CURRENT_EXECUTION = 1"

lemmas mb_constants =
  POINTER_SIZE_def THREAD_COUNTER_SIZE_def LIST_NEXT_OFFSET_def LIST_WIDTH_def
  LIST_ELEM_NEXT_OFFSET_def LIST_ELEM_CONTENT_OFFSET_def THREAD_STACK_OFFSET_def
  THREAD_NAME_OFFSET_def THREAD_NAME_SIZE_def MAX_PRIORITIES_def THREAD_ID_CURRENT_EXECUTION_def

subsection \<open>Symbols\<close>

datatype symbols_values =
    Symbol_start
  | Symbol_pxCurrentTCB
  | Symbol_pxReadyTasksLists
  | Symbol_xDelayedTaskList1
  | Symbol_xDelayedTaskList2
  | Symbol_pxDelayedTaskList
  | Symbol_pxOverflowDelayedTaskList
  | Symbol_xPendingReadyList
  | Symbol_xTasksWaitingTermination
  | Symbol_xSuspendedTaskList
  | Symbol_uxCurrentNumberOfTasks
  | Symbol_uxTopUsedPriority
  | Symbol_xTopReadyPriority

primrec symbol_index :: "symbols_values \<Rightarrow> nat" where
  "symbol_index Symbol_start = 0"
| "symbol_index Symbol_pxCurrentTCB = 1"
| "symbol_index Symbol_pxReadyTasksLists = 2"
| "symbol_index Symbol_xDelayedTaskList1 = 3"
| "symbol_index Symbol_xDelayedTaskList2 = 4"
| "symbol_index Symbol_pxDelayedTaskList = 5"
| "symbol_index Symbol_pxOverflowDelayedTaskList = 6"
| "symbol_index Symbol_xPendingReadyList = 7"
| "symbol_index Symbol_xTasksWaitingTermination = 8"
| "symbol_index Symbol_xSuspendedTaskList = 9"
| "symbol_index Symbol_uxCurrentNumberOfTasks = 10"
| "symbol_index Symbol_uxTopUsedPriority = 11"
| "symbol_index Symbol_xTopReadyPriority = 12"

definition Symbol_Count :: nat where
  "Symbol_Count = 13"

datatype symbol_avail = Optional | Required

text \<open>\<open>s_symbols_desc\<close>: name and requirement of each symbol.\<close>

definition s_symbols_desc :: "(string \<times> symbol_avail) list" where
  "s_symbols_desc = [
    (''_start'', Optional),
    (''pxCurrentTCB'', Required),
    (''pxReadyTasksLists'', Required),
    (''xDelayedTaskList1'', Required),
    (''xDelayedTaskList2'', Required),
    (''pxDelayedTaskList'', Required),
    (''pxOverflowDelayedTaskList'', Required),
    (''xPendingReadyList'', Required),
    (''xTasksWaitingTermination'', Optional),
    (''xSuspendedTaskList'', Optional),
    (''uxCurrentNumberOfTasks'', Required),
    (''uxTopUsedPriority'', Optional),
    (''xTopReadyPriority'', Optional)]"

lemma length_symbols_desc: "length s_symbols_desc = Symbol_Count"
  by (simp add: s_symbols_desc_def Symbol_Count_def)

lemma symbol_index_bound: "symbol_index s < Symbol_Count"
  by (cases s) (simp_all add: Symbol_Count_def)

subsection \<open>State\<close>

record thread_info =
  thread_tcb :: u64
  thread_id :: threadid
  ti_exists :: bool
  ti_name :: string
  ti_extra :: string

record thread_list =
  tl_address :: u64
  tl_count :: u64
  list_elem_ptr :: u64
  list_elem_ptr_prev :: u64

text \<open>A reference or iterator: the generation of the container and the index in it.\<close>

type_synonym cref = "nat \<times> nat"

text \<open>The one closure ever passed as \<open>done_cb\<close>.\<close>

datatype done_callback = Stop_Reply_Done

record threading =
  threads_count :: u64
  current_thread_tcb :: u64
  current_thread_id :: threadid
  t_info :: "thread_info list"
  t_lists :: "thread_list list"
  list_it :: "cref option"
  done_cb :: "done_callback option"

record registers =
  r_stacking :: "register_stacking option"
  stack_ptr :: u64

datatype mb_cb =
    Cb_qSupported
  | Cb_stop_reply
  | Cb_threads_count
  | Cb_current_thread
  | Cb_ready_lists_count
  | Cb_list_count cref
  | Cb_list_elem_ptr cref
  | Cb_elem_thread_id
  | Cb_elem_name cref
  | Cb_elem_next cref
  | Cb_stack_ptr
  | Cb_registers u64

record mb =
  m_conn :: "mb_cb conn_call list"
  m_process_symbols :: bool
  m_current_symbol :: nat
  m_rtos_avail :: bool
  m_symbols :: "u64 list"
  m_threading :: threading
  m_current_thread_id :: threadid
  m_threads_map :: "(u64, u32) smap"
  mb_multiprocess :: bool
  m_stop_reply_response :: gdb_packet
  m_registers :: registers
  lists_gen :: nat
  info_gen :: nat

definition thread_info_default :: thread_info where
  "thread_info_default =
     \<lparr>thread_tcb = 0, thread_id = threadid_default, ti_exists = False, ti_name = [], ti_extra = []\<rparr>"

definition thread_list_at :: "u64 \<Rightarrow> thread_list" where
  "thread_list_at address =
     \<lparr>tl_address = address, tl_count = 0, list_elem_ptr = 0, list_elem_ptr_prev = - 1\<rparr>"

definition threading_default :: threading where
  "threading_default =
     \<lparr>threads_count = 0, current_thread_tcb = 0, current_thread_id = threadid_default,
      t_info = [], t_lists = [], list_it = None, done_cb = None\<rparr>"

definition registers_default :: registers where
  "registers_default = \<lparr>r_stacking = None, stack_ptr = 0\<rparr>"

definition symbol_addr :: "mb \<Rightarrow> symbols_values \<Rightarrow> u64" where
  "symbol_addr t s = m_symbols t ! symbol_index s"

subsection \<open>Calls on the connection\<close>

definition push_internal_request :: "gdb_packet \<Rightarrow> mb_cb \<Rightarrow> mb \<Rightarrow> mb" where
  "push_internal_request pkt cb t = t\<lparr>m_conn := m_conn t @ [Internal_Request pkt (Some cb)]\<rparr>"

definition push_request :: "gdb_packet \<Rightarrow> mb_cb option \<Rightarrow> mb \<Rightarrow> mb" where
  "push_request pkt cb t = t\<lparr>m_conn := m_conn t @ [Client_Request pkt cb]\<rparr>"

definition push_internal_response :: "gdb_packet \<Rightarrow> mb \<Rightarrow> mb" where
  "push_internal_response pkt t = t\<lparr>m_conn := m_conn t @ [Internal_Response pkt]\<rparr>"

definition push_client_reply :: "string \<Rightarrow> mb \<Rightarrow> mb res" where
  "push_client_reply text t =
     bind_res packet_data (\<lambda>rep.
     bind_res (parse rep text) (\<lambda>(rep, n).
     bind_res (finalize rep) (\<lambda>(rep, ok).
     Inr (push_internal_response rep t))))"

text \<open>A memory read request with the callback for its reply.\<close>

definition read_memory :: "u64 \<Rightarrow> u64 \<Rightarrow> mb_cb \<Rightarrow> mb \<Rightarrow> mb res" where
  "read_memory address len cb t =
     bind_res (gdb_memory_read_req address len) (\<lambda>pkt. Inr (push_internal_request pkt cb t))"

subsection \<open>Thread identifiers\<close>

definition make_threadid_pid :: "u64 \<Rightarrow> u64 \<Rightarrow> mb \<Rightarrow> threadid" where
  "make_threadid_pid tcb pid t =
     \<lparr>m_multiprocess = mb_multiprocess t, m_process = pid, m_threadid = tcb\<rparr>"

abbreviation make_threadid :: "u64 \<Rightarrow> mb \<Rightarrow> threadid" where
  "make_threadid tcb t \<equiv> make_threadid_pid tcb 1 t"

text \<open>
  The search for the least unused number. The structured binding \<open>[key, id]\<close> shadows the
  variable \<open>id\<close>, so the assignment in the loop stores \<open>start_id\<close> in the map's entry.
\<close>

fun scan_ids :: "(u64, u32) smap \<Rightarrow> u32 \<Rightarrow> (u64, u32) smap \<times> u32" where
  "scan_ids [] start_id = ([], start_id)"
| "scan_ids ((key, ident) # m) start_id =
     (if ident \<noteq> start_id then ((key, start_id) # m, start_id)
      else let (m', start_id') = scan_ids m (start_id + 1) in ((key, ident) # m', start_id'))"

definition get_threadid :: "u64 \<Rightarrow> bool \<Rightarrow> mb \<Rightarrow> threadid \<times> mb" where
  "get_threadid tcb update t =
     (let ident = (0 :: u32);
          (m, ident) =
            (case smap_find tcb (m_threads_map t) of
               None \<Rightarrow>
                 let start_id = ucast (THREAD_ID_CURRENT_EXECUTION + 1);
                     (m, start_id) = scan_ids (m_threads_map t) start_id
                 in (m, if ident = 0 then start_id + 1 else ident)
             | Some v \<Rightarrow> (m_threads_map t, v));
          m = (if update then smap_put tcb ident m else m);
          t' = t\<lparr>m_threads_map := m\<rparr>
      in (make_threadid (scast ident) t', t'))"

subsection \<open>Construction\<close>

definition add_current_execution :: "mb \<Rightarrow> mb" where
  "add_current_execution t =
     (let info = thread_info_default
          \<lparr>thread_tcb := THREAD_ID_CURRENT_EXECUTION,
           thread_id := make_threadid THREAD_ID_CURRENT_EXECUTION t,
           ti_exists := True,
           ti_name := ''Current Execution''\<rparr>
      in t\<lparr>m_threading := m_threading t\<lparr>t_info := t_info (m_threading t) @ [info]\<rparr>\<rparr>)"

text \<open>\<open>m_threading = threading()\<close>\<close>

definition reset_threading :: "mb \<Rightarrow> mb" where
  "reset_threading t =
     t\<lparr>m_threading := threading_default, lists_gen := lists_gen t + 1, info_gen := info_gen t + 1\<rparr>"

definition make_empty_threading :: "mb \<Rightarrow> mb" where
  "make_empty_threading t0 =
     (let t = reset_threading t0;
          tid = make_threadid THREAD_ID_CURRENT_EXECUTION t
      in add_current_execution
          (t\<lparr>m_threading := m_threading t
               \<lparr>threads_count := 1, current_thread_tcb := THREAD_ID_CURRENT_EXECUTION,
                current_thread_id := tid\<rparr>,
             m_current_thread_id := tid\<rparr>))"

text \<open>
  The constructor. \<open>m_symbols\<close> has no initialiser: the array's first contents are an argument.
\<close>

definition mb_new :: "u64 list \<Rightarrow> mb" where
  "mb_new junk =
     make_empty_threading
       \<lparr>m_conn = [], m_process_symbols = False, m_current_symbol = 0, m_rtos_avail = False,
        m_symbols = junk, m_threading = threading_default, m_current_thread_id = threadid_default,
        m_threads_map = [], mb_multiprocess = False, m_stop_reply_response = empty_packet,
        m_registers = registers_default, lists_gen = 0, info_gen = 0\<rparr>"

end
