(* ===== verification/Mb_Threads.thy ===== *)
theory Mb_Threads
  imports Mb_State
begin

section \<open>The FreeRTOS target: thread update (target\_mb\_freertos.cpp)\<close>

text \<open>
  The sequence of memory reads by which the target learns the threads of the stopped system. Each
  step queues one read and names the callback that goes on with its reply: the number of threads,
  the current thread, the number of ready lists, then for every list its length, its first
  element and, element by element, the thread, its name and the next element. At the end the
  stop reply that started the update is sent to the client.

  The functions stand in the order the code calls them back, from the last step to the first. A
  function \<open>cb_f\<close> is the callback of the step \<open>f\<close>; its argument \<open>val\<close> is the value read.
\<close>

subsection \<open>The stop reply sent when the update is done\<close>

text \<open>
  The loop over the fields of the payload, each ended by \<open>;\<close>: a \<open>thread:\<close> field is replaced by the
  selected thread, the others are copied, what follows the last \<open>;\<close> is not.
\<close>

function rewrite_fields :: "string \<Rightarrow> string \<Rightarrow> nat \<Rightarrow> gdb_packet \<Rightarrow> gdb_packet res" where
  "rewrite_fields tid_str payload start p =
     (case sv_find payload (CHR '';'') start of
        None \<Rightarrow> Inr p
      | Some e \<Rightarrow>
          bind_res (sv_compare_eq payload start 7 ''thread:'') (\<lambda>is_thread.
          bind_res
            (if is_thread then parse p (''thread:'' @ tid_str @ '';'')
             else bind_res (sv_substr_n payload start (e - start + 1)) (\<lambda>sub. parse p sub))
            (\<lambda>(p', n). rewrite_fields tid_str payload (e + 1) p')))"
  by pat_completeness auto
termination
  by (relation "measure (\<lambda>(tid_str, payload, start, p). length payload - start)")
    (auto intro: sv_find_decreases)

declare rewrite_fields.simps [simp del]

definition stop_reply_done :: "mb \<Rightarrow> mb res" where
  "stop_reply_done t =
     bind_res packet_data (\<lambda>new_resp.
     bind_res (sv_substr_n (pkt_data (m_stop_reply_response t)) 0 3) (\<lambda>signal.
     bind_res (parse new_resp signal) (\<lambda>(new_resp, n).
     bind_res (sv_substr (pkt_data (m_stop_reply_response t)) 3) (\<lambda>payload.
     bind_res (rewrite_fields (tid_to_string (m_current_thread_id t)) payload 0 new_resp) (\<lambda>new_resp.
     bind_res (finalize new_resp) (\<lambda>(new_resp, ok).
     let t' = push_internal_response new_resp t
     in Inr (t'\<lparr>m_stop_reply_response := reset (m_stop_reply_response t')\<rparr>)))))))"

definition run_done_cb :: "done_callback option \<Rightarrow> mb \<Rightarrow> mb res" where
  "run_done_cb cb t =
     (case cb of None \<Rightarrow> Inr t | Some Stop_Reply_Done \<Rightarrow> stop_reply_done t)"

definition update_threads_done :: "mb \<Rightarrow> mb res" where
  "update_threads_done t =
     (let th = (m_threading t)\<lparr>t_lists := [], threads_count := of_nat (length (t_info (m_threading t)))\<rparr>;
          t' = t\<lparr>m_threading := th, lists_gen := lists_gen t + 1,
                 m_threads_map :=
                   smap_keep (\<lambda>tcb. \<exists>info\<in>set (t_info th). tcb = thread_tcb info) (m_threads_map t)\<rparr>
      in run_done_cb (done_cb th) t')"

subsection \<open>References into the lists\<close>

definition deref_list :: "cref \<Rightarrow> mb \<Rightarrow> thread_list res" where
  "deref_list r t =
     (if fst r = lists_gen t \<and> snd r < length (t_lists (m_threading t))
      then Inr (t_lists (m_threading t) ! snd r) else Inl Undefined)"

text \<open>\<open>*m_threading.list_it\<close>: the reference and the element.\<close>

definition current_list :: "mb \<Rightarrow> (cref \<times> thread_list) res" where
  "current_list t =
     (case list_it (m_threading t) of
        None \<Rightarrow> Inl Undefined
      | Some r \<Rightarrow> bind_res (deref_list r t) (\<lambda>l. Inr (r, l)))"

definition update_list :: "cref \<Rightarrow> (thread_list \<Rightarrow> thread_list) \<Rightarrow> mb \<Rightarrow> mb res" where
  "update_list r f t =
     bind_res (deref_list r t) (\<lambda>l.
     Inr (t\<lparr>m_threading := m_threading t
            \<lparr>t_lists := (t_lists (m_threading t))[snd r := f l]\<rparr>\<rparr>))"

text \<open>\<open>m_threading.list_it++\<close>\<close>

definition advance_list :: "mb \<Rightarrow> mb res" where
  "advance_list t =
     bind_res (current_list t) (\<lambda>((g, i), l).
     Inr (t\<lparr>m_threading := m_threading t\<lparr>list_it := Some (g, i + 1)\<rparr>\<rparr>))"

definition deref_info :: "cref \<Rightarrow> mb \<Rightarrow> thread_info res" where
  "deref_info r t =
     (if fst r = info_gen t \<and> snd r < length (t_info (m_threading t))
      then Inr (t_info (m_threading t) ! snd r) else Inl Undefined)"

subsection \<open>Walking one list\<close>

definition get_list_threads_count :: "mb \<Rightarrow> mb res" where
  "get_list_threads_count t =
     bind_res (current_list t) (\<lambda>(r, l).
     read_memory (tl_address l) THREAD_COUNTER_SIZE (Cb_list_count r) t)"

text \<open>The \<open>do\<close> loop: lists at address 0 are passed over.\<close>

fun skip_lists :: "thread_list list \<Rightarrow> nat \<Rightarrow> nat" where
  "skip_lists [] i = i"
| "skip_lists (l # ls) i = (if tl_address l = 0 then skip_lists ls (i + 1) else i)"

definition get_thread_list_data :: "mb \<Rightarrow> mb res" where
  "get_thread_list_data t =
     (let lists = t_lists (m_threading t) in
      case list_it (m_threading t) of
        None \<Rightarrow> Inl Undefined
      | Some (g, i) \<Rightarrow>
          if g \<noteq> lists_gen t \<or> i > length lists then Inl Undefined
          else let i' = skip_lists (drop i lists) i;
                   t' = t\<lparr>m_threading := m_threading t\<lparr>list_it := Some (g, i')\<rparr>\<rparr>
               in if i' = length lists then update_threads_done t' else get_list_threads_count t')"

definition get_list_elem_next :: "mb \<Rightarrow> mb res" where
  "get_list_elem_next t =
     bind_res (current_list t) (\<lambda>(r, l).
     bind_res (update_list r (\<lambda>l. l\<lparr>tl_count := tl_count l - 1\<rparr>) t) (\<lambda>t'.
     read_memory (list_elem_ptr l + LIST_ELEM_NEXT_OFFSET) POINTER_SIZE (Cb_elem_next r) t'))"

text \<open>The C string at the front of the bytes read, closed by the NUL that is pushed after them.\<close>

definition cb_elem_name :: "cref \<Rightarrow> gdb_packet \<Rightarrow> mb \<Rightarrow> mb res" where
  "cb_elem_name r reply t =
     bind_res (deref_info r t) (\<lambda>info.
     let bin = fst (hex2bin_vec 1 (pkt_data reply) []) @ [0];
         info = info\<lparr>ti_name := (if hd bin = 0 then ''No Name''
                                 else map chr8 (takeWhile (\<lambda>b. b \<noteq> 0) bin))\<rparr>;
         info = (if current_thread_tcb (m_threading t) = thread_tcb info
                 then info\<lparr>ti_extra := ''State: Running''\<rparr> else info);
         info = info\<lparr>ti_exists := True\<rparr>
     in get_list_elem_next
          (t\<lparr>m_threading := m_threading t\<lparr>t_info := (t_info (m_threading t))[snd r := info]\<rparr>\<rparr>))"

definition get_list_elem_thread_name :: "mb \<Rightarrow> mb res" where
  "get_list_elem_thread_name t =
     (let infos = t_info (m_threading t) in
      if infos = [] then Inl Undefined
      else read_memory (thread_tcb (last infos) + THREAD_NAME_OFFSET) THREAD_NAME_SIZE
             (Cb_elem_name (info_gen t, length infos - 1)) t)"

definition cb_elem_thread_id :: "u64 \<Rightarrow> mb \<Rightarrow> mb res" where
  "cb_elem_thread_id val t =
     (let (tid, t1) = get_threadid val True t;
          info = thread_info_default\<lparr>thread_tcb := val, thread_id := tid\<rparr>
      in get_list_elem_thread_name
           (t1\<lparr>m_threading := m_threading t1\<lparr>t_info := t_info (m_threading t1) @ [info]\<rparr>\<rparr>))"

definition get_list_elem_thread_id :: "mb \<Rightarrow> mb res" where
  "get_list_elem_thread_id t =
     bind_res (current_list t) (\<lambda>(r, l).
     if tl_count l = 0 \<or> list_elem_ptr l = 0 \<or> list_elem_ptr l = list_elem_ptr_prev l
     then bind_res (advance_list t) get_thread_list_data
     else read_memory (list_elem_ptr l + LIST_ELEM_CONTENT_OFFSET) POINTER_SIZE
            Cb_elem_thread_id t)"

definition cb_elem_next :: "cref \<Rightarrow> u64 \<Rightarrow> mb \<Rightarrow> mb res" where
  "cb_elem_next r val t =
     bind_res (update_list r
       (\<lambda>l. l\<lparr>list_elem_ptr_prev := list_elem_ptr l, list_elem_ptr := val\<rparr>) t)
     get_list_elem_thread_id"

definition cb_list_elem_ptr :: "cref \<Rightarrow> u64 \<Rightarrow> mb \<Rightarrow> mb res" where
  "cb_list_elem_ptr r val t =
     bind_res (update_list r (\<lambda>l. l\<lparr>list_elem_ptr := val\<rparr>) t) get_list_elem_thread_id"

definition get_list_elem_ptr :: "mb \<Rightarrow> mb res" where
  "get_list_elem_ptr t =
     bind_res (current_list t) (\<lambda>(r, l).
     read_memory (tl_address l + LIST_NEXT_OFFSET) POINTER_SIZE (Cb_list_elem_ptr r) t)"

definition cb_list_count :: "cref \<Rightarrow> u64 \<Rightarrow> mb \<Rightarrow> mb res" where
  "cb_list_count r val t =
     bind_res (update_list r (\<lambda>l. l\<lparr>tl_count := val\<rparr>) t) (\<lambda>t'.
     if val = 0 then bind_res (advance_list t') get_thread_list_data
     else get_list_elem_ptr t')"

subsection \<open>Setting up the lists\<close>

text \<open>\<open>std::vector<thread_list>::max_size()\<close>; an element has 32 bytes.\<close>

definition lists_max_size :: nat where
  "lists_max_size = (2 ^ 63 - 1) div 32"

definition process_ready_thread_lists_count :: "u64 \<Rightarrow> mb \<Rightarrow> mb res" where
  "process_ready_thread_lists_count count t =
     (if unat (count + 1 + 5) > lists_max_size then Inl Length_Error
      else
        let ready = map (\<lambda>i. thread_list_at (symbol_addr t Symbol_pxReadyTasksLists
                                             + of_nat i * LIST_WIDTH)) [0..<unat count];
            others = map (\<lambda>s. thread_list_at (symbol_addr t s))
              [Symbol_xDelayedTaskList1, Symbol_xDelayedTaskList2, Symbol_xPendingReadyList,
               Symbol_xTasksWaitingTermination, Symbol_xSuspendedTaskList];
            g = lists_gen t + 1
        in get_thread_list_data
             (t\<lparr>m_threading := m_threading t
                  \<lparr>t_lists := t_lists (m_threading t) @ ready @ others, list_it := Some (g, 0)\<rparr>,
                lists_gen := g\<rparr>))"

definition get_thread_lists_count :: "mb \<Rightarrow> mb res" where
  "get_thread_lists_count t =
     (if symbol_addr t Symbol_uxTopUsedPriority \<noteq> 0
      then read_memory (symbol_addr t Symbol_uxTopUsedPriority) THREAD_COUNTER_SIZE
             Cb_ready_lists_count t
      else if symbol_addr t Symbol_xTopReadyPriority \<noteq> 0
      then read_memory (symbol_addr t Symbol_xTopReadyPriority) THREAD_COUNTER_SIZE
             Cb_ready_lists_count t
      else process_ready_thread_lists_count MAX_PRIORITIES t)"

definition cb_current_thread :: "u64 \<Rightarrow> mb \<Rightarrow> mb res" where
  "cb_current_thread val t0 =
     (let t1 = t0\<lparr>m_threading := m_threading t0\<lparr>current_thread_tcb := val\<rparr>\<rparr>;
          t2 = (if val \<noteq> 0
                then let (tid, t) = get_threadid val True t1
                     in t\<lparr>m_threading := m_threading t\<lparr>current_thread_id := tid\<rparr>\<rparr>
                else t1);
          t3 = add_current_execution
                 (t2\<lparr>m_threading := m_threading t2
                       \<lparr>threads_count := threads_count (m_threading t2) + 1\<rparr>\<rparr>)
      in if threads_count (m_threading t3) = 1 then update_threads_done t3
         else get_thread_lists_count t3)"

definition get_current_thread :: "mb \<Rightarrow> mb res" where
  "get_current_thread t =
     read_memory (symbol_addr t Symbol_pxCurrentTCB) POINTER_SIZE Cb_current_thread t"

definition cb_threads_count :: "u64 \<Rightarrow> mb \<Rightarrow> mb res" where
  "cb_threads_count val t =
     get_current_thread (t\<lparr>m_threading := m_threading t\<lparr>threads_count := val\<rparr>\<rparr>)"

definition get_threads_count :: "mb \<Rightarrow> mb res" where
  "get_threads_count t =
     read_memory (symbol_addr t Symbol_uxCurrentNumberOfTasks) THREAD_COUNTER_SIZE
       Cb_threads_count t"

definition update_threads :: "done_callback option \<Rightarrow> mb \<Rightarrow> mb res" where
  "update_threads cb t =
     (if \<not> m_rtos_avail t then run_done_cb cb t
      else let t1 = reset_threading t
           in get_threads_count (t1\<lparr>m_threading := m_threading t1\<lparr>done_cb := cb\<rparr>\<rparr>))"

end
