(* ===== verification/Mb_Requests.thy ===== *)
theory Mb_Requests
  imports Mb_Threads
begin

section \<open>The FreeRTOS target: requests and replies (target\_mb\_freertos.cpp)\<close>

text \<open>
  The handlers of the client's packets: thread queries, the exchange of symbols, the packets
  answered by a stop reply, thread selection and the registers of a thread that is not running;
  and the dispatch of a reply to the callback that waits for it.
\<close>

subsection \<open>Registers of a thread\<close>

definition get_thread_registers :: "mb \<Rightarrow> mb res" where
  "get_thread_registers t =
     (case r_stacking (m_registers t) of
        None \<Rightarrow> Inl Undefined
      | Some st \<Rightarrow>
          let address = (if growth_direction st = Growth_up
                         then stack_ptr (m_registers t) - context_size st
                         else stack_ptr (m_registers t))
          in read_memory address (context_size st) (Cb_registers address) t)"

text \<open>The two characters of byte \<open>j\<close> of a register; the context is read unchecked.\<close>

definition reg_byte_text :: "byte list \<Rightarrow> u64 \<Rightarrow> int \<Rightarrow> nat \<Rightarrow> string res" where
  "reg_byte_text bin new_stack_ptr offset j =
     (if offset = register_unused then Inr (hex_byte 0)
      else if offset = register_unavail then Inr ''xx''
      else if offset = register_sp
      then (if j < 4 then Inr (hex_byte (le_bytes 4 new_stack_ptr ! j)) else Inl Undefined)
      else if 0 \<le> offset \<and> nat offset + j < length bin then Inr (hex_byte (bin ! (nat offset + j)))
      else Inl Undefined)"

fun put_reg_bytes :: "byte list \<Rightarrow> u64 \<Rightarrow> int \<Rightarrow> nat list \<Rightarrow> gdb_packet \<Rightarrow> gdb_packet res" where
  "put_reg_bytes bin sp offset [] pkt = Inr pkt"
| "put_reg_bytes bin sp offset (j # js) pkt =
     bind_res (reg_byte_text bin sp offset j) (\<lambda>buf.
     bind_res (parse pkt buf) (\<lambda>(pkt, n). put_reg_bytes bin sp offset js pkt))"

fun put_registers :: "byte list \<Rightarrow> u64 \<Rightarrow> register_stack_offset list \<Rightarrow> gdb_packet \<Rightarrow> gdb_packet res" where
  "put_registers bin sp [] pkt = Inr pkt"
| "put_registers bin sp (r # rs) pkt =
     bind_res (put_reg_bytes bin sp (reg_offset r) [0..<width_bits r div 8] pkt) (\<lambda>pkt.
     put_registers bin sp rs pkt)"

definition cb_registers :: "u64 \<Rightarrow> gdb_packet \<Rightarrow> mb \<Rightarrow> mb res" where
  "cb_registers address reply t =
     (case r_stacking (m_registers t) of
        None \<Rightarrow> Inl Undefined
      | Some st \<Rightarrow>
          let bin = fst (hex2bin_vec 1 (pkt_data reply) []);
              new_stack_ptr = address - of_int (growth_value (growth_direction st)) * context_size st
          in bind_res packet_data (\<lambda>pkt.
             bind_res (put_registers bin new_stack_ptr (reg_table st) pkt) (\<lambda>pkt.
             bind_res (finalize pkt) (\<lambda>(pkt, ok).
             Inr (push_internal_response pkt t)))))"

definition cb_stack_ptr :: "u64 \<Rightarrow> mb \<Rightarrow> mb res" where
  "cb_stack_ptr val t = get_thread_registers (t\<lparr>m_registers := m_registers t\<lparr>stack_ptr := val\<rparr>\<rparr>)"

definition get_thread_stack_ptr :: "u64 \<Rightarrow> mb \<Rightarrow> mb res" where
  "get_thread_stack_ptr ident t =
     read_memory (ident + THREAD_STACK_OFFSET) POINTER_SIZE Cb_stack_ptr t"

definition get_thread_reg_list :: "u64 \<Rightarrow> mb \<Rightarrow> (mb \<times> bool) res" where
  "get_thread_reg_list ident t =
     bind_res (get_thread_stack_ptr ident
       (t\<lparr>m_registers := registers_default\<lparr>r_stacking := Some microblaze_non_fpu_stacking\<rparr>\<rparr>))
     (\<lambda>t'. Inr (t', True))"

subsection \<open>Symbols\<close>

definition request_symbol :: "mb \<Rightarrow> mb res" where
  "request_symbol t =
     bind_res packet_data (\<lambda>pkt.
     bind_res (parse pkt ''qSymbol:'') (\<lambda>(pkt, n).
     if m_current_symbol t < length s_symbols_desc
     then let hex = bin2hex (map ord8 (fst (s_symbols_desc ! m_current_symbol t))) []
          in bind_res (parse pkt hex) (\<lambda>(pkt, n).
             bind_res (finalize pkt) (\<lambda>(pkt, ok).
             Inr (push_internal_response pkt t)))
     else Inl Undefined))"

text \<open>The final check: no required symbol is at address 0.\<close>

definition rtos_symbols_found :: "u64 list \<Rightarrow> bool" where
  "rtos_symbols_found syms =
     list_all (\<lambda>(a, d). \<not> (a = 0 \<and> snd d = Required)) (zip syms s_symbols_desc)"

text \<open>
  \<open>strtoull\<close> reads from the ninth character of the packet's data on, up to the first character
  that is not a digit; the data is followed in memory by the \<open>#\<close> of the checksum.
\<close>

definition handle_symbol_reply :: "gdb_packet \<Rightarrow> mb \<Rightarrow> (mb \<times> bool) res" where
  "handle_symbol_reply pkt t =
     (let (value, erange) = strtoull16 (drop (1 + 8) (m_data pkt));
          addr = (if value = - 1 \<and> erange then 0 else value)
      in if \<not> m_current_symbol t < length (m_symbols t) then Inl Undefined
         else let t1 = t\<lparr>m_symbols := (m_symbols t)[m_current_symbol t := addr],
                         m_current_symbol := m_current_symbol t + 1\<rparr>
              in if m_current_symbol t1 = Symbol_Count
                 then let t2 = t1\<lparr>m_process_symbols := False,
                                  m_rtos_avail := rtos_symbols_found (m_symbols t1)\<rparr>
                      in bind_res packet_data (\<lambda>reply.
                         bind_res (parse reply ''qSymbol::'') (\<lambda>(reply, n).
                         bind_res (finalize reply) (\<lambda>(reply, ok).
                         Inr (push_request reply None t2, True))))
                 else bind_res (request_symbol t1) (\<lambda>t2. Inr (t2, True)))"

definition handle_symbol_init :: "mb \<Rightarrow> (mb \<times> bool) res" where
  "handle_symbol_init t =
     bind_res (request_symbol
       (t\<lparr>m_process_symbols := True, m_current_symbol := 0, m_rtos_avail := False,
          m_symbols := replicate (length (m_symbols t)) 0\<rparr>))
     (\<lambda>t'. Inr (t', True))"

subsection \<open>Queries\<close>

definition cb_qSupported :: "gdb_packet \<Rightarrow> mb \<Rightarrow> mb" where
  "cb_qSupported reply t =
     (if sv_contains (pkt_data reply) '';multiprocess+'' then t\<lparr>mb_multiprocess := True\<rparr> else t)"

definition extra_info_text :: "thread_info \<Rightarrow> string" where
  "extra_info_text info =
     (let s = (if ti_name info \<noteq> [] then ''Name: '' @ ti_name info else [])
      in if ti_extra info \<noteq> []
         then (if s \<noteq> [] then s @ '', '' else s) @ ti_extra info
         else s)"

definition thread_extra_info :: "gdb_packet \<Rightarrow> mb \<Rightarrow> (mb \<times> bool) res" where
  "thread_extra_info pkt t =
     (if \<not> m_rtos_avail t \<or> threads_count (m_threading t) = 0 then Inr (t, False)
      else
        bind_res (sv_substr (pkt_data pkt) 17) (\<lambda>tid_view.
        bind_res (threadid_of_string tid_view) (\<lambda>tid.
        if tid_eq tid (make_threadid THREAD_ID_CURRENT_EXECUTION t) then Inr (t, False)
        else
          bind_res packet_data (\<lambda>rep.
          bind_res
            (case find (\<lambda>info. tid_eq tid (thread_id info)) (t_info (m_threading t)) of
               None \<Rightarrow> parse rep ''E01''
             | Some info \<Rightarrow> parse rep (bin2hex (map ord8 (extra_info_text info)) []))
          (\<lambda>(rep, n).
          bind_res (finalize rep) (\<lambda>(rep, ok).
          Inr (push_internal_response rep t, True)))))))"

fun put_thread_ids :: "bool \<Rightarrow> thread_info list \<Rightarrow> gdb_packet \<Rightarrow> gdb_packet res" where
  "put_thread_ids first [] rep = Inr rep"
| "put_thread_ids first (info # infos) rep =
     bind_res (if first then Inr (rep, 0) else parse rep '','') (\<lambda>(rep, n).
     bind_res (parse rep (tid_to_string (thread_id info))) (\<lambda>(rep, n).
     put_thread_ids False infos rep))"

definition first_thread_info :: "mb \<Rightarrow> (mb \<times> bool) res" where
  "first_thread_info t =
     (if \<not> m_rtos_avail t then Inr (t, False)
      else
        bind_res packet_data (\<lambda>rep.
        bind_res
          (if threads_count (m_threading t) \<noteq> 0
           then if int (unat (20 * threads_count (m_threading t))) > vector_max_size
                then Inl Length_Error
                else bind_res (parse rep ''m'') (\<lambda>(rep, n).
                     put_thread_ids True (t_info (m_threading t)) rep)
           else Inr rep)
        (\<lambda>rep.
        bind_res (finalize rep) (\<lambda>(rep, ok).
        Inr (push_internal_response rep t, True)))))"

definition handle_query_packet :: "gdb_packet \<Rightarrow> mb \<Rightarrow> (mb \<times> bool) res" where
  "handle_query_packet pkt t =
     (let d = pkt_data pkt in
      bind_res (sv_compare_eq d 0 10 ''qSupported'') (\<lambda>b.
      if b then Inr (push_request pkt (Some Cb_qSupported) t, True) else
      bind_res (sv_compare_eq d 0 17 ''qThreadExtraInfo,'') (\<lambda>b.
      if b then thread_extra_info pkt t else
      bind_res (sv_compare_eq d 0 12 ''qfThreadInfo'') (\<lambda>b.
      if b then first_thread_info t else
      bind_res (sv_compare_eq d 0 5 ''qCRC:'') (\<lambda>b.
      if b then Inr (t, False) else
      bind_res (sv_compare_eq d 0 2 ''qC'') (\<lambda>b.
      if b then
        (if \<not> m_rtos_avail t then Inr (t, False)
         else bind_res
           (push_client_reply (''QC'' @ tid_to_string (current_thread_id (m_threading t))) t)
           (\<lambda>t'. Inr (t', True)))
      else if d = ''qSymbol::'' then handle_symbol_init t else
      bind_res (sv_compare_eq d 0 8 ''qSymbol:'') (\<lambda>b.
      if b \<and> m_process_symbols t then handle_symbol_reply pkt t
      else Inr (t, False))))))))"

subsection \<open>Stop replies\<close>

definition handle_stop_reply_packets :: "gdb_packet \<Rightarrow> mb \<Rightarrow> (mb \<times> bool) res" where
  "handle_stop_reply_packets pkt t = Inr (push_internal_request pkt Cb_stop_reply t, True)"

definition cb_stop_reply :: "gdb_packet \<Rightarrow> mb \<Rightarrow> mb res" where
  "cb_stop_reply reply t =
     bind_res (sv_index (pkt_data reply) 0) (\<lambda>c.
     if c \<noteq> CHR ''T'' then Inl System_Error
     else update_threads (Some Stop_Reply_Done) (t\<lparr>m_stop_reply_response := reply\<rparr>))"

subsection \<open>Dispatch of a request\<close>

text \<open>The condition of the \<open>v\<close> packets, with the evaluation order of \<open>&&\<close> and \<open>||\<close>.\<close>

definition v_packet_resumes :: "string \<Rightarrow> bool res" where
  "v_packet_resumes d =
     bind_res (sv_at d 5) (\<lambda>c.
     bind_res (if c \<noteq> CHR ''?'' then sv_compare_eq d 1 4 ''Cont'' else Inr False) (\<lambda>b.
     if b then Inr True else
     bind_res (sv_compare_eq d 1 6 ''Attach'') (\<lambda>b.
     if b then Inr True else
     bind_res (sv_compare_eq d 1 3 ''Run'') (\<lambda>b.
     if b then Inr True else sv_compare_eq d 1 7 ''Stopped''))))"

text \<open>
  The thread number is compared as an unsigned number, and is then used as an address.
\<close>

definition handle_registers_request :: "mb \<Rightarrow> (mb \<times> bool) res" where
  "handle_registers_request t =
     (if tid_eq (m_current_thread_id t) (make_threadid THREAD_ID_CURRENT_EXECUTION t)
      then Inr (t, False)
      else if m_rtos_avail t
      then (if tid_eq (m_current_thread_id t) (current_thread_id (m_threading t)) then Inr (t, False)
            else let thread_tcb = m_threadid (m_current_thread_id t)
                 in if thread_tcb > THREAD_ID_CURRENT_EXECUTION
                    then get_thread_reg_list thread_tcb t
                    else Inr (t, False))
      else Inr (t, False))"

definition handle_thread_alive :: "gdb_packet \<Rightarrow> mb \<Rightarrow> (mb \<times> bool) res" where
  "handle_thread_alive pkt t =
     (if \<not> m_rtos_avail t then Inr (t, False)
      else
        bind_res (sv_substr (pkt_data pkt) 1) (\<lambda>view.
        bind_res (threadid_of_string view) (\<lambda>tid.
        if tid_eq tid (make_threadid THREAD_ID_CURRENT_EXECUTION t) then Inr (t, False)
        else
          let found = (threads_count (m_threading t) \<noteq> 0 \<and>
                list_ex (\<lambda>info. tid_eq (thread_id info) tid \<and> ti_exists info)
                  (t_info (m_threading t)))
          in bind_res (push_client_reply (if found then ''OK'' else ''E01'') t)
               (\<lambda>t'. Inr (t', True)))))"

definition handle_set_thread :: "gdb_packet \<Rightarrow> mb \<Rightarrow> (mb \<times> bool) res" where
  "handle_set_thread pkt t =
     bind_res (sv_index (pkt_data pkt) 1) (\<lambda>c.
     if c = CHR ''g''
     then bind_res (sv_substr (pkt_data pkt) 2) (\<lambda>view.
          bind_res (threadid_of_string view) (\<lambda>tid.
          let t1 = t\<lparr>m_current_thread_id := tid\<rparr>
          in if tid_eq tid (make_threadid THREAD_ID_CURRENT_EXECUTION t1) \<or> \<not> m_rtos_avail t1
             then Inr (t1, False)
             else bind_res (push_client_reply ''OK'' t1) (\<lambda>t2. Inr (t2, True))))
     else Inr (t, False))"

definition process_request :: "gdb_packet \<Rightarrow> mb \<Rightarrow> (mb \<times> bool) res" where
  "process_request pkt t =
     (if pkt_type pkt = Pt_dat
      then bind_res (sv_index (pkt_data pkt) 0) (\<lambda>c.
        if c = CHR ''q'' then handle_query_packet pkt t
        else if c = CHR ''C'' \<or> c = CHR ''c'' \<or> c = CHR ''S'' \<or> c = CHR ''s'' \<or> c = CHR ''?''
        then handle_stop_reply_packets pkt t
        else if c = CHR ''v''
        then bind_res (v_packet_resumes (pkt_data pkt)) (\<lambda>b.
             if b then handle_stop_reply_packets pkt t else Inr (t, False))
        else if c = CHR ''g'' then handle_registers_request t
        else if c = CHR ''T'' then handle_thread_alive pkt t
        else if c = CHR ''H'' then handle_set_thread pkt t
        else Inr (t, False))
      else Inr (t, False))"

subsection \<open>Dispatch of a reply\<close>

definition run_callback :: "mb_cb \<Rightarrow> gdb_packet \<Rightarrow> gdb_packet \<Rightarrow> mb \<Rightarrow> mb res" where
  "run_callback cb req reply t =
     (let val = gdb_memory_read_reply reply in
      case cb of
        Cb_qSupported \<Rightarrow> Inr (cb_qSupported reply t)
      | Cb_stop_reply \<Rightarrow> cb_stop_reply reply t
      | Cb_threads_count \<Rightarrow> cb_threads_count val t
      | Cb_current_thread \<Rightarrow> cb_current_thread val t
      | Cb_ready_lists_count \<Rightarrow> process_ready_thread_lists_count val t
      | Cb_list_count r \<Rightarrow> cb_list_count r val t
      | Cb_list_elem_ptr r \<Rightarrow> cb_list_elem_ptr r val t
      | Cb_elem_thread_id \<Rightarrow> cb_elem_thread_id val t
      | Cb_elem_name r \<Rightarrow> cb_elem_name r reply t
      | Cb_elem_next r \<Rightarrow> cb_elem_next r val t
      | Cb_stack_ptr \<Rightarrow> cb_stack_ptr val t
      | Cb_registers address \<Rightarrow> cb_registers address reply t)"

text \<open>The two methods as the connection sees them: the calls they make are handed over.\<close>

definition mb_process_request :: "mb \<Rightarrow> gdb_packet \<Rightarrow> (mb \<times> mb_cb conn_call list \<times> bool) res" where
  "mb_process_request t pkt =
     bind_res (process_request pkt (t\<lparr>m_conn := []\<rparr>)) (\<lambda>(t', h). Inr (t'\<lparr>m_conn := []\<rparr>, m_conn t', h))"

definition mb_on_reply ::
  "mb_cb \<Rightarrow> gdb_packet \<Rightarrow> gdb_packet \<Rightarrow> mb \<Rightarrow> (mb \<times> mb_cb conn_call list) res" where
  "mb_on_reply cb req reply t =
     bind_res (run_callback cb req reply (t\<lparr>m_conn := []\<rparr>)) (\<lambda>t'. Inr (t'\<lparr>m_conn := []\<rparr>, m_conn t'))"

end
