(* ===== verification/Mb_Contract.thy ===== *)
theory Mb_Contract
  imports Mb_Requests
begin

section \<open>The FreeRTOS target keeps its contract\<close>

text \<open>
  The invariant of the target's state, that every operation keeps it, and the interpretation of
  \<open>target_contract\<close> that follows: the target only ever pushes complete data packets.
\<close>

definition mb_inv :: "mb \<Rightarrow> bool" where
  "mb_inv t =
     (list_all call_ok (m_conn t)
      \<and> plain (pkt_data (m_stop_reply_response t))
      \<and> length (m_symbols t) = Symbol_Count
      \<and> (m_process_symbols t \<longrightarrow> m_current_symbol t < Symbol_Count \<and> \<not> m_rtos_avail t)
      \<and> (m_rtos_avail t \<longrightarrow> rtos_symbols_found (m_symbols t))
      \<and> smap_ok (m_threads_map t))"

named_theorems mb_keep \<open>operations keep the invariant\<close>

subsection \<open>Updates the invariant does not see\<close>

lemma mb_inv_simps [simp]:
  "mb_inv (t\<lparr>m_threading := th\<rparr>) = mb_inv t"
  "mb_inv (t\<lparr>lists_gen := g\<rparr>) = mb_inv t"
  "mb_inv (t\<lparr>info_gen := g\<rparr>) = mb_inv t"
  "mb_inv (t\<lparr>m_registers := r\<rparr>) = mb_inv t"
  "mb_inv (t\<lparr>m_current_thread_id := i\<rparr>) = mb_inv t"
  "mb_inv (t\<lparr>mb_multiprocess := b\<rparr>) = mb_inv t"
  by (simp_all add: mb_inv_def)

lemma mb_inv_push [simp]:
  "data_pkt p \<Longrightarrow> mb_inv (push_internal_request p cb t) = mb_inv t"
  "data_pkt p \<Longrightarrow> mb_inv (push_request p ocb t) = mb_inv t"
  "data_pkt p \<Longrightarrow> mb_inv (push_internal_response p t) = mb_inv t"
  by (simp_all add: mb_inv_def push_internal_request_def push_request_def
      push_internal_response_def call_ok_def)

lemma mb_inv_reply: "mb_inv t \<Longrightarrow> data_pkt p \<Longrightarrow> mb_inv (t\<lparr>m_stop_reply_response := p\<rparr>)"
  by (simp add: mb_inv_def plain_pkt_data)

lemma mb_inv_reply_reset: "mb_inv t \<Longrightarrow> mb_inv (t\<lparr>m_stop_reply_response := reset p\<rparr>)"
  by (simp add: mb_inv_def reset_def pkt_data_def)

lemma mb_inv_map: "mb_inv t \<Longrightarrow> smap_ok m \<Longrightarrow> mb_inv (t\<lparr>m_threads_map := m\<rparr>)"
  by (simp add: mb_inv_def)

subsection \<open>Texts\<close>

lemma plain_make_id [simp]: "plain (make_id v)"
proof -
  have "c \<noteq> CHR ''#'' \<and> c \<noteq> CHR ''*''" if "c \<in> set (make_id v)" for c
    using make_id_chars [OF that] hex_not_special [of c] by auto
  then show ?thesis by (auto simp: plain_def)
qed

lemma plain_tid_to_string [simp]: "plain (tid_to_string tid)"
  by (simp add: tid_to_string_def)

lemma plain_drop: "plain s \<Longrightarrow> plain (drop n s)"
  by (auto simp: plain_def dest: in_set_dropD)

lemma plain_hex_byte [simp]: "plain (hex_byte b)"
proof -
  have "unat b < 2 ^ LENGTH(8)" by (rule unsigned_less)
  then have "unat b div 16 < 16" by auto
  then show ?thesis by (intro plain_hex) (auto simp: hex_byte_def)
qed

lemma push_client_reply_plain [simp]:
  "plain s \<Longrightarrow> push_client_reply s t = Inr (push_internal_response (data_packet s) t)"
  by (simp add: push_client_reply_def)

lemma read_memory_Inr:
  "read_memory a n cb t = Inr t' \<Longrightarrow> \<exists>s. plain s \<and> t' = push_internal_request (data_packet s) cb t"
  by (auto simp: read_memory_def res_iff dest: read_req_Inr)

lemma read_memory_inv [mb_keep]: "read_memory a n cb t = Inr t' \<Longrightarrow> mb_inv t \<Longrightarrow> mb_inv t'"
  by (auto dest: read_memory_Inr)

subsection \<open>Thread update\<close>

lemma scan_ids_keys: "map fst (fst (scan_ids m s)) = map fst m"
  by (induction m s rule: scan_ids.induct) (auto split: prod.splits)

lemma smap_ok_scan: "smap_ok m \<Longrightarrow> smap_ok (fst (scan_ids m s))"
  by (simp add: smap_ok_def scan_ids_keys)

lemma get_threadid_map:
  "smap_ok (m_threads_map t) \<Longrightarrow>
     \<exists>m. snd (get_threadid tcb u t) = t\<lparr>m_threads_map := m\<rparr> \<and> smap_ok m"
proof (cases "smap_find tcb (m_threads_map t)")
  case None
  assume ok: "smap_ok (m_threads_map t)"
  obtain m s where sc: "scan_ids (m_threads_map t) (ucast (THREAD_ID_CURRENT_EXECUTION + 1)) = (m, s)"
    by fastforce
  with smap_ok_scan [OF ok] have m: "smap_ok m" by (metis fst_conv)
  show ?thesis
    using None sc m smap_ok_put [OF m] by (auto simp: get_threadid_def Let_def)
next
  case (Some v)
  assume ok: "smap_ok (m_threads_map t)"
  show ?thesis using Some ok smap_ok_put [OF ok]
    by (cases u) (auto simp: get_threadid_def Let_def intro: exI [of _ "m_threads_map t"])
qed

lemma get_threadid_inv:
  "get_threadid tcb u t = (tid, t') \<Longrightarrow> mb_inv t \<Longrightarrow> mb_inv t'"
  using get_threadid_map [of t tcb u] by (auto simp: mb_inv_def)

lemma rewrite_fields_open:
  "plain payload \<Longrightarrow> plain s \<Longrightarrow> plain tid_str \<Longrightarrow>
     rewrite_fields tid_str payload start (open_packet s) = Inr p \<Longrightarrow>
     \<exists>u. plain u \<and> p = open_packet u"
proof (induction tid_str payload start "open_packet s" arbitrary: s rule: rewrite_fields.induct)
  case (1 tid_str payload start s)
  show ?case
  proof (cases "sv_find payload (CHR '';'') start")
    case None
    with "1.prems" show ?thesis by (subst (asm) rewrite_fields.simps) auto
  next
    case (Some e)
    let ?sub = "take (e - start + 1) (drop start payload)"
    have "plain ?sub" using "1.prems"(1) by (intro plain_take plain_drop)
    moreover have "start \<le> length payload"
      using sv_find_bounds(1,2) [OF Some] by simp
    ultimately show ?thesis
      using "1.prems" "1.hyps" [OF Some] Some
      by (subst (asm) rewrite_fields.simps)
        (auto simp: sv_compare_eq_def sv_substr_n_def split: if_splits)
  qed
qed

lemma stop_reply_done_inv [mb_keep]: "stop_reply_done t = Inr t' \<Longrightarrow> mb_inv t \<Longrightarrow> mb_inv t'"
proof -
  assume eq: "stop_reply_done t = Inr t'" and inv: "mb_inv t"
  let ?d = "pkt_data (m_stop_reply_response t)"
  have d: "plain ?d" using inv by (simp add: mb_inv_def)
  have sig: "plain (take 3 ?d)" using d by (rule plain_take)
  have pay: "plain (drop 3 ?d)" using d by (rule plain_drop)
  from eq sig obtain np ok np' where
    rw: "rewrite_fields (tid_to_string (m_current_thread_id t)) (drop 3 ?d) 0
          (open_packet (take 3 ?d)) = Inr np"
    and fin: "finalize np = Inr (np', ok)"
    and t': "t' = (push_internal_response np' t)\<lparr>m_stop_reply_response :=
        reset (m_stop_reply_response (push_internal_response np' t))\<rparr>"
    by (auto simp: stop_reply_done_def res_iff sv_substr_n_def sv_substr_def Let_def split: if_splits)
  from rewrite_fields_open [OF pay sig plain_tid_to_string rw] obtain u
    where "plain u" "np = open_packet u" by auto
  with fin inv show ?thesis by (auto simp: t' intro!: mb_inv_reply_reset)
qed

lemma run_done_cb_inv [mb_keep]: "run_done_cb cb t = Inr t' \<Longrightarrow> mb_inv t \<Longrightarrow> mb_inv t'"
  by (auto simp: run_done_cb_def split: option.splits done_callback.splits dest: stop_reply_done_inv)

lemma update_threads_done_inv [mb_keep]:
  "update_threads_done t = Inr t' \<Longrightarrow> mb_inv t \<Longrightarrow> mb_inv t'"
  unfolding update_threads_done_def Let_def
  by (erule run_done_cb_inv) (simp add: mb_inv_def smap_ok_keep)

lemma update_list_inv [mb_keep]: "update_list r f t = Inr t' \<Longrightarrow> mb_inv t \<Longrightarrow> mb_inv t'"
  by (auto simp: update_list_def res_iff)

lemma advance_list_inv [mb_keep]: "advance_list t = Inr t' \<Longrightarrow> mb_inv t \<Longrightarrow> mb_inv t'"
  by (auto simp: advance_list_def res_iff)

lemma get_list_threads_count_inv [mb_keep]:
  "get_list_threads_count t = Inr t' \<Longrightarrow> mb_inv t \<Longrightarrow> mb_inv t'"
  by (auto simp: get_list_threads_count_def res_iff intro: mb_keep)

lemma get_thread_list_data_inv [mb_keep]:
  "get_thread_list_data t = Inr t' \<Longrightarrow> mb_inv t \<Longrightarrow> mb_inv t'"
  by (auto simp: get_thread_list_data_def Let_def split: option.splits if_splits
      dest!: update_threads_done_inv get_list_threads_count_inv)

lemma get_list_elem_next_inv [mb_keep]:
  "get_list_elem_next t = Inr t' \<Longrightarrow> mb_inv t \<Longrightarrow> mb_inv t'"
  by (auto simp: get_list_elem_next_def res_iff dest!: read_memory_inv update_list_inv)

lemma cb_elem_name_inv [mb_keep]: "cb_elem_name r p t = Inr t' \<Longrightarrow> mb_inv t \<Longrightarrow> mb_inv t'"
  by (auto simp: cb_elem_name_def res_iff Let_def dest!: get_list_elem_next_inv)

lemma get_list_elem_thread_name_inv [mb_keep]:
  "get_list_elem_thread_name t = Inr t' \<Longrightarrow> mb_inv t \<Longrightarrow> mb_inv t'"
  by (auto simp: get_list_elem_thread_name_def Let_def split: if_splits dest!: read_memory_inv)

lemma cb_elem_thread_id_inv [mb_keep]: "cb_elem_thread_id v t = Inr t' \<Longrightarrow> mb_inv t \<Longrightarrow> mb_inv t'"
  by (auto simp: cb_elem_thread_id_def split: prod.splits
      dest!: get_list_elem_thread_name_inv get_threadid_inv)

lemma get_list_elem_thread_id_inv [mb_keep]:
  "get_list_elem_thread_id t = Inr t' \<Longrightarrow> mb_inv t \<Longrightarrow> mb_inv t'"
  by (auto simp: get_list_elem_thread_id_def res_iff split: if_splits
      dest!: read_memory_inv advance_list_inv get_thread_list_data_inv)

lemma cb_elem_next_inv [mb_keep]: "cb_elem_next r v t = Inr t' \<Longrightarrow> mb_inv t \<Longrightarrow> mb_inv t'"
  by (auto simp: cb_elem_next_def res_iff dest!: update_list_inv get_list_elem_thread_id_inv)

lemma cb_list_elem_ptr_inv [mb_keep]: "cb_list_elem_ptr r v t = Inr t' \<Longrightarrow> mb_inv t \<Longrightarrow> mb_inv t'"
  by (auto simp: cb_list_elem_ptr_def res_iff dest!: update_list_inv get_list_elem_thread_id_inv)

lemma get_list_elem_ptr_inv [mb_keep]: "get_list_elem_ptr t = Inr t' \<Longrightarrow> mb_inv t \<Longrightarrow> mb_inv t'"
  by (auto simp: get_list_elem_ptr_def res_iff dest!: read_memory_inv)

lemma cb_list_count_inv [mb_keep]: "cb_list_count r v t = Inr t' \<Longrightarrow> mb_inv t \<Longrightarrow> mb_inv t'"
  by (auto simp: cb_list_count_def res_iff split: if_splits
      dest!: update_list_inv advance_list_inv get_thread_list_data_inv get_list_elem_ptr_inv)

lemma process_ready_inv [mb_keep]:
  "process_ready_thread_lists_count n t = Inr t' \<Longrightarrow> mb_inv t \<Longrightarrow> mb_inv t'"
  by (auto simp: process_ready_thread_lists_count_def Let_def split: if_splits
      dest!: get_thread_list_data_inv)

lemma get_thread_lists_count_inv [mb_keep]:
  "get_thread_lists_count t = Inr t' \<Longrightarrow> mb_inv t \<Longrightarrow> mb_inv t'"
  by (auto simp: get_thread_lists_count_def split: if_splits dest!: read_memory_inv process_ready_inv)

lemma mb_inv_add_current [simp]: "mb_inv (add_current_execution t) = mb_inv t"
  by (simp add: add_current_execution_def Let_def)

lemma cb_current_thread_inv [mb_keep]: "cb_current_thread v t = Inr t' \<Longrightarrow> mb_inv t \<Longrightarrow> mb_inv t'"
  by (auto simp: cb_current_thread_def Let_def split: prod.splits if_splits
      dest!: get_threadid_inv update_threads_done_inv get_thread_lists_count_inv)

lemma cb_threads_count_inv [mb_keep]: "cb_threads_count v t = Inr t' \<Longrightarrow> mb_inv t \<Longrightarrow> mb_inv t'"
  by (auto simp: cb_threads_count_def get_current_thread_def dest!: read_memory_inv)

lemma update_threads_inv [mb_keep]: "update_threads cb t = Inr t' \<Longrightarrow> mb_inv t \<Longrightarrow> mb_inv t'"
  by (auto simp: update_threads_def get_threads_count_def reset_threading_def Let_def
      split: if_splits dest!: run_done_cb_inv read_memory_inv)

subsection \<open>Requests\<close>

lemma reg_byte_text_plain: "reg_byte_text bin sp offs j = Inr s \<Longrightarrow> plain s"
  by (auto simp: reg_byte_text_def split: if_splits)

lemma put_reg_bytes_open:
  "plain s \<Longrightarrow> put_reg_bytes bin sp offs js (open_packet s) = Inr p \<Longrightarrow>
     \<exists>u. plain u \<and> p = open_packet u"
proof (induction js arbitrary: s)
  case Nil
  then show ?case by auto
next
  case (Cons j js)
  from Cons.prems(2) obtain x where x: "reg_byte_text bin sp offs j = Inr x"
    by (auto simp: res_iff)
  with reg_byte_text_plain [OF x] Cons.prems Cons.IH [of "s @ x"] show ?case by simp
qed

lemma put_registers_open:
  "plain s \<Longrightarrow> put_registers bin sp rs (open_packet s) = Inr p \<Longrightarrow>
     \<exists>u. plain u \<and> p = open_packet u"
proof (induction rs arbitrary: s)
  case Nil
  then show ?case by auto
next
  case (Cons r rs)
  from Cons.prems obtain p1
    where p1: "put_reg_bytes bin sp (reg_offset r) [0..<width_bits r div 8] (open_packet s) = Inr p1"
      and p: "put_registers bin sp rs p1 = Inr p"
    by (auto simp: res_iff)
  from put_reg_bytes_open [OF Cons.prems(1) p1] Cons.IH p show ?case by auto
qed

lemma cb_registers_inv [mb_keep]: "cb_registers a rep t = Inr t' \<Longrightarrow> mb_inv t \<Longrightarrow> mb_inv t'"
  by (auto simp: cb_registers_def res_iff Let_def split: option.splits
      dest!: put_registers_open [where s = "[]", simplified])

lemma get_thread_registers_inv [mb_keep]:
  "get_thread_registers t = Inr t' \<Longrightarrow> mb_inv t \<Longrightarrow> mb_inv t'"
  by (auto simp: get_thread_registers_def Let_def split: option.splits if_splits
      dest!: read_memory_inv)

lemma cb_stack_ptr_inv [mb_keep]: "cb_stack_ptr v t = Inr t' \<Longrightarrow> mb_inv t \<Longrightarrow> mb_inv t'"
  by (auto simp: cb_stack_ptr_def dest!: get_thread_registers_inv)

lemma get_thread_reg_list_inv: "get_thread_reg_list n t = Inr (t', h) \<Longrightarrow> mb_inv t \<Longrightarrow> mb_inv t'"
  by (auto simp: get_thread_reg_list_def get_thread_stack_ptr_def res_iff dest!: read_memory_inv)

lemma request_symbol_eq:
  "m_current_symbol t < Symbol_Count \<Longrightarrow> request_symbol t = Inr (push_internal_response
     (data_packet (''qSymbol:'' @ bin2hex (map ord8 (fst (s_symbols_desc ! m_current_symbol t))) [])) t)"
  by (simp add: request_symbol_def length_symbols_desc Let_def)

lemma plain_request_symbol [simp]:
  "plain (''qSymbol:'' @ bin2hex bs [])"
  by simp

lemma handle_symbol_init_inv:
  assumes "handle_symbol_init t = Inr (t', h)" and "mb_inv t"
  shows "mb_inv t'"
proof -
  let ?t = "t\<lparr>m_process_symbols := True, m_current_symbol := 0, m_rtos_avail := False,
          m_symbols := replicate (length (m_symbols t)) 0\<rparr>"
  have "mb_inv ?t" using assms(2) by (simp add: mb_inv_def Symbol_Count_def)
  then show ?thesis using assms(1)
    by (auto simp: handle_symbol_init_def res_iff request_symbol_eq Symbol_Count_def)
qed

lemma handle_symbol_reply_inv:
  assumes "handle_symbol_reply pkt t = Inr (t', h)" and "mb_inv t" and "m_process_symbols t"
  shows "mb_inv t'"
proof -
  obtain v e where ve: "strtoull16 (drop (1 + 8) (m_data pkt)) = (v, e)" by fastforce
  let ?a = "if v = - 1 \<and> e then 0 else v"
  let ?t1 = "t\<lparr>m_symbols := (m_symbols t)[m_current_symbol t := ?a],
               m_current_symbol := m_current_symbol t + 1\<rparr>"
  from assms(2,3) have c: "m_current_symbol t < Symbol_Count" "length (m_symbols t) = Symbol_Count"
    by (auto simp: mb_inv_def)
  show ?thesis
  proof (cases "m_current_symbol t + 1 = Symbol_Count")
    case True
    let ?t2 = "?t1\<lparr>m_process_symbols := False, m_rtos_avail := rtos_symbols_found (m_symbols ?t1)\<rparr>"
    from assms True ve c have "t' = push_request (data_packet ''qSymbol::'') None ?t2"
      by (simp add: handle_symbol_reply_def Let_def)
    moreover have "mb_inv ?t2" using assms(2) c by (simp add: mb_inv_def)
    ultimately show ?thesis by simp
  next
    case False
    with c have "m_current_symbol ?t1 < Symbol_Count" by simp
    moreover from this have "mb_inv ?t1" using assms(2,3) c by (simp add: mb_inv_def)
    ultimately show ?thesis
      using assms False ve c
      by (auto simp: handle_symbol_reply_def Let_def res_iff request_symbol_eq)
  qed
qed

lemma put_thread_ids_open:
  "plain s \<Longrightarrow> \<exists>u. plain u \<and> put_thread_ids b infos (open_packet s) = Inr (open_packet u)"
  by (induction infos arbitrary: b s) (auto simp: bind_res_def)

lemma first_thread_info_inv: "first_thread_info t = Inr (t', h) \<Longrightarrow> mb_inv t \<Longrightarrow> mb_inv t'"
  using put_thread_ids_open [of "''m''" True "t_info (m_threading t)"]
  by (auto simp: first_thread_info_def res_iff split: if_splits)

lemma thread_extra_info_inv: "thread_extra_info pkt t = Inr (t', h) \<Longrightarrow> mb_inv t \<Longrightarrow> mb_inv t'"
  by (auto simp: thread_extra_info_def res_iff split: if_splits option.splits)

lemma handle_query_inv:
  assumes "handle_query_packet pkt t = Inr (t', h)" and "mb_inv t" and "data_pkt pkt"
  shows "mb_inv t'"
  using assms
  by (auto simp: handle_query_packet_def res_iff Let_def
      dest: thread_extra_info_inv first_thread_info_inv handle_symbol_init_inv handle_symbol_reply_inv
      split: if_splits)

lemma handle_stop_inv:
  "handle_stop_reply_packets pkt t = Inr (t', h) \<Longrightarrow> mb_inv t \<Longrightarrow> data_pkt pkt \<Longrightarrow> mb_inv t'"
  by (auto simp: handle_stop_reply_packets_def)

lemma handle_registers_request_inv:
  "handle_registers_request t = Inr (t', h) \<Longrightarrow> mb_inv t \<Longrightarrow> mb_inv t'"
  by (auto simp: handle_registers_request_def Let_def split: if_splits dest: get_thread_reg_list_inv)

lemma handle_thread_alive_inv:
  "handle_thread_alive pkt t = Inr (t', h) \<Longrightarrow> mb_inv t \<Longrightarrow> mb_inv t'"
  by (auto simp: handle_thread_alive_def res_iff Let_def split: if_splits)

lemma handle_set_thread_inv:
  "handle_set_thread pkt t = Inr (t', h) \<Longrightarrow> mb_inv t \<Longrightarrow> mb_inv t'"
  by (auto simp: handle_set_thread_def res_iff Let_def split: if_splits)

lemma process_request_cases:
  assumes "process_request pkt t = Inr (t', h)"
  shows "t' = t \<and> \<not> h \<or> handle_query_packet pkt t = Inr (t', h)
    \<or> handle_stop_reply_packets pkt t = Inr (t', h) \<or> handle_registers_request t = Inr (t', h)
    \<or> handle_thread_alive pkt t = Inr (t', h) \<or> handle_set_thread pkt t = Inr (t', h)"
proof (cases "pkt_type pkt = Pt_dat")
  case False
  with assms show ?thesis by (simp add: process_request_def)
next
  case True
  with assms obtain c where c: "sv_index (pkt_data pkt) 0 = Inr c"
    by (auto simp: process_request_def res_iff)
  note eq = assms [unfolded process_request_def c bind_res_simps, simplified True if_True refl]
  show ?thesis
  proof (cases "c = CHR ''v''")
    case v: True
    then obtain b where b: "v_packet_resumes (pkt_data pkt) = Inr b"
      using eq by (auto simp: res_iff)
    show ?thesis using eq v b by (cases b) simp_all
  next
    case False
    with eq show ?thesis by (simp split: if_splits)
  qed
qed

lemma process_request_inv:
  assumes "process_request pkt t = Inr (t', h)" and "mb_inv t" and "data_pkt pkt"
  shows "mb_inv t'"
  using process_request_cases [OF assms(1)] assms(2,3)
  by (metis handle_query_inv handle_stop_inv handle_registers_request_inv handle_thread_alive_inv
      handle_set_thread_inv)

lemma run_callback_inv:
  assumes "run_callback cb req rep t = Inr t'" and "mb_inv t" and "data_pkt rep"
  shows "mb_inv t'"
proof (cases cb)
  case Cb_stop_reply
  with assms show ?thesis
    by (auto simp: run_callback_def cb_stop_reply_def res_iff split: if_splits
        dest!: update_threads_inv intro: mb_inv_reply)
qed (use assms in \<open>auto simp: run_callback_def cb_qSupported_def split: if_splits dest: mb_keep\<close>)

lemma mb_inv_calls:
  "mb_inv t \<Longrightarrow> mb_inv (t\<lparr>m_conn := []\<rparr>)" "mb_inv t \<Longrightarrow> list_all call_ok (m_conn t)"
  by (simp_all add: mb_inv_def)

interpretation mb_target: target_contract mb_process_request mb_on_reply mb_inv
  by unfold_locales
    (auto simp: mb_process_request_def mb_on_reply_def res_iff
      dest: process_request_inv [OF _ mb_inv_calls(1)] run_callback_inv [OF _ mb_inv_calls(1)]
      mb_inv_calls)

lemma mb_new_inv: "length junk = Symbol_Count \<Longrightarrow> mb_inv (mb_new junk)"
  by (simp add: mb_new_def make_empty_threading_def Let_def reset_threading_def)
    (simp add: mb_inv_def smap_ok_def empty_packet_def pkt_data_def)

end
