(* ===== verification/Conn_Safety.thy ===== *)
theory Conn_Safety
  imports Connection Mb_Contract
begin

section \<open>Connections: what is written to the sockets\<close>

text \<open>
  The invariant of a connection, for any target that keeps the contract \<open>target_contract\<close>: queues
  and sockets only ever hold complete packets and between events both parsers are ready for more
  data. Proved in the locale, so that it holds for both targets of the program.
\<close>

subsection \<open>Channels\<close>

lemma get_upd_channel [simp]:
  "get_channel d (upd_channel dir f c) = (if d = dir then f (get_channel d c) else get_channel d c)"
  by (cases d; cases dir) (simp_all add: get_channel_def upd_channel_def)

lemma upd_channel_fields [simp]:
  "m_target (upd_channel dir f c) = m_target c" "next_id (upd_channel dir f c) = next_id c"
  "conn_seq (upd_channel dir f c) = conn_seq c" "m_ack_mode (upd_channel dir f c) = m_ack_mode c"
  "conn_closed (upd_channel dir f c) = conn_closed c"
  by (cases dir; simp add: upd_channel_def)+

lemma get_channel_fields [simp]:
  "get_channel d (c\<lparr>m_target := t\<rparr>) = get_channel d c"
  "get_channel d (c\<lparr>next_id := n\<rparr>) = get_channel d c"
  "get_channel d (c\<lparr>conn_seq := n\<rparr>) = get_channel d c"
  "get_channel d (c\<lparr>m_ack_mode := b\<rparr>) = get_channel d c"
  "get_channel d (c\<lparr>conn_closed := b\<rparr>) = get_channel d c"
  by (cases d; simp add: get_channel_def)+

lemma requests_channel: "m_requests_channel c = get_channel Requests c"
  by (simp add: get_channel_def)

subsection \<open>The invariant\<close>

definition done_pkt :: "gdb_packet \<Rightarrow> bool" where
  "done_pkt p = (pkt_inv p \<and> is_complete p)"

definition queue_ok :: "'cb channel \<Rightarrow> bool" where
  "queue_ok ch =
     ((\<forall>tr\<in>set (m_transfers ch). done_pkt (tr_pkt tr)
         \<and> (on_response_cb tr \<noteq> None \<longrightarrow> data_pkt (tr_pkt tr)))
      \<and> (\<forall>s\<in>set (ch_sent ch). \<exists>p. done_pkt p \<and> s = raw_data p))"

definition conn_ok :: "('t \<Rightarrow> bool) \<Rightarrow> ('t, 'cb) connection \<Rightarrow> bool" where
  "conn_ok ti c =
     ((\<forall>d. queue_ok (get_channel d c) \<and> pkt_inv (m_packet (get_channel d c)))
      \<and> (\<forall>t. m_target c = Some t \<longrightarrow> ti t))"

definition idle :: "('t, 'cb) connection \<Rightarrow> bool" where
  "idle c = (\<forall>d. \<not> is_complete (m_packet (get_channel d c)))"

definition same_parsers :: "('t, 'cb) connection \<Rightarrow> ('t, 'cb) connection \<Rightarrow> bool" where
  "same_parsers c c' = (\<forall>d. m_packet (get_channel d c) = m_packet (get_channel d c'))"

lemma data_pkt_done: "data_pkt p \<Longrightarrow> done_pkt p"
  by (simp add: data_pkt_def done_pkt_def)

lemma same_parsers_refl [simp]: "same_parsers c c"
  by (simp add: same_parsers_def)

lemma same_parsers_trans: "same_parsers a b \<Longrightarrow> same_parsers b c \<Longrightarrow> same_parsers a c"
  by (simp add: same_parsers_def)

lemma same_parsers_idle: "same_parsers a b \<Longrightarrow> idle b \<Longrightarrow> idle a"
  by (simp add: same_parsers_def idle_def)

lemma start_write_ok:
  "conn_ok ti c \<Longrightarrow> done_pkt p \<Longrightarrow> cb = None \<or> data_pkt p \<Longrightarrow>
     conn_ok ti (start_write dir p i cb c) \<and> same_parsers (start_write dir p i cb c) c"
  by (auto simp: start_write_def Let_def conn_ok_def queue_ok_def same_parsers_def)

lemma apply_call_ok:
  "conn_ok ti c \<Longrightarrow> call_ok call \<Longrightarrow>
     conn_ok ti (apply_call call c) \<and> same_parsers (apply_call call c) c"
  by (cases call) (simp_all add: start_write_ok call_ok_def data_pkt_done)

lemma apply_calls_ok:
  "conn_ok ti c \<Longrightarrow> list_all call_ok cs \<Longrightarrow>
     conn_ok ti (apply_calls cs c) \<and> same_parsers (apply_calls cs c) c"
proof (induction cs arbitrary: c)
  case (Cons call cs)
  then have c: "conn_ok ti (apply_call call c)" "same_parsers (apply_call call c) c"
    using apply_call_ok [of ti c call] by auto
  with Cons.IH [OF c(1)] Cons.prems show ?case
    by (auto simp: apply_calls_def intro: same_parsers_trans)
qed (simp add: apply_calls_def)

lemma conn_ok_simps [simp]:
  "conn_ok ti (c\<lparr>conn_seq := n\<rparr>) = conn_ok ti c" "conn_ok ti (c\<lparr>m_ack_mode := b\<rparr>) = conn_ok ti c"
  "conn_ok ti (c\<lparr>conn_closed := b\<rparr>) = conn_ok ti c"
  by (simp_all add: conn_ok_def)

lemma conn_ok_target: "conn_ok ti c \<Longrightarrow> ti t \<Longrightarrow> conn_ok ti (c\<lparr>m_target := Some t\<rparr>)"
  by (simp add: conn_ok_def)

lemma set_tl_subset: "set (tl xs) \<subseteq> set xs"
  by (cases xs) auto

lemma conn_ok_pop:
  "conn_ok ti c \<Longrightarrow> conn_ok ti (upd_channel dir (\<lambda>ch. ch\<lparr>m_transfers := tl (m_transfers ch)\<rparr>) c)"
  by (auto simp: conn_ok_def queue_ok_def dest: set_tl_subset [THEN subsetD])

lemma conn_ok_flags:
  "conn_ok ti c \<Longrightarrow> conn_ok ti (upd_channel dir (\<lambda>ch. ch\<lparr>ch_reading := b\<rparr>) c)"
  "conn_ok ti c \<Longrightarrow> conn_ok ti (upd_channel dir (\<lambda>ch. ch\<lparr>ch_writes := ws\<rparr>) c)"
  by (auto simp: conn_ok_def queue_ok_def)

lemma same_parsers_simps [simp]:
  "same_parsers (c\<lparr>conn_seq := n\<rparr>) b = same_parsers c b"
  "same_parsers (c\<lparr>m_ack_mode := x\<rparr>) b = same_parsers c b"
  "same_parsers (c\<lparr>m_target := y\<rparr>) b = same_parsers c b"
  "same_parsers b (c\<lparr>m_target := y\<rparr>) = same_parsers b c"
  "same_parsers b (c\<lparr>conn_seq := n\<rparr>) = same_parsers b c"
  "same_parsers b (c\<lparr>m_ack_mode := x\<rparr>) = same_parsers b c"
  "same_parsers (upd_channel dir (\<lambda>ch. ch\<lparr>m_transfers := f ch\<rparr>) c) b = same_parsers c b"
  by (auto simp: same_parsers_def)

subsection \<open>Cases of the handlers\<close>

lemma ack_mode_update_fields [simp]:
  "get_channel d (ack_mode_update req pkt c) = get_channel d c"
  "m_target (ack_mode_update req pkt c) = m_target c"
  "same_parsers (ack_mode_update req pkt c) b = same_parsers c b"
  "same_parsers b (ack_mode_update req pkt c) = same_parsers b c"
  "conn_ok ti (ack_mode_update req pkt c) = conn_ok ti c"
  by (simp_all add: ack_mode_update_def)

lemma on_responseE:
  assumes "on_response rp pkt c = Inr (c', h)" and "pkt_type pkt = Pt_dat"
  obtains (no_callback) req rest where "m_transfers (get_channel Requests c) = req # rest"
      and "on_response_cb req = None \<or> m_target c = None" and "h = is_internal req"
      and "c' = upd_channel Requests (\<lambda>ch. ch\<lparr>m_transfers := tl (m_transfers ch)\<rparr>)
        (ack_mode_update (tr_pkt req) pkt c)"
    | (callback) req rest cb t t' cs where "m_transfers (get_channel Requests c) = req # rest"
      and "on_response_cb req = Some cb" and "m_target c = Some t" and "h = is_internal req"
      and "rp cb (tr_pkt req) pkt t = Inr (t', cs)"
      and "c' = upd_channel Requests (\<lambda>ch. ch\<lparr>m_transfers := tl (m_transfers ch)\<rparr>)
        (apply_calls cs ((ack_mode_update (tr_pkt req) pkt c)\<lparr>m_target := Some t'\<rparr>))"
proof (cases "m_transfers (get_channel Requests c)")
  case Nil
  with assms show ?thesis by (simp add: on_response_def requests_channel)
next
  case (Cons req rest)
  let ?c1 = "ack_mode_update (tr_pkt req) pkt c"
  let ?pop = "upd_channel Requests (\<lambda>ch. ch\<lparr>m_transfers := tl (m_transfers ch)\<rparr>)"
  note r = on_response_def requests_channel ack_mode_update_def Let_def
  consider "on_response_cb req = None \<or> m_target c = None"
    | cb t where "on_response_cb req = Some cb" "m_target c = Some t" by fastforce
  then show ?thesis
  proof cases
    case 1
    then have "on_response rp pkt c = Inr (?pop ?c1, is_internal req)"
      using Cons assms(2) by (cases "on_response_cb req"; cases "m_target c") (simp_all add: r)
    with assms(1) no_callback [OF Cons 1] show ?thesis by simp
  next
    case 2
    then have "on_response rp pkt c = bind_res (rp cb (tr_pkt req) pkt t) (\<lambda>(t', cs).
        Inr (?pop (apply_calls cs (?c1\<lparr>m_target := Some t'\<rparr>)), is_internal req))"
      using Cons assms(2) by (cases "rp cb (tr_pkt req) pkt t") (auto simp: r)
    with assms(1) callback [OF Cons 2] show ?thesis by (auto simp: res_iff)
  qed
qed

lemma on_requestE:
  assumes "on_request pr pkt c = Inr (c', h)" and "pkt_type pkt = Pt_dat"
  obtains (no_target) "m_target c = None" and "\<not> h" and "c' = c\<lparr>conn_seq := conn_seq c + 1\<rparr>"
    | (target) t t' cs where "m_target c = Some t" and "pr t pkt = Inr (t', cs, h)"
      and "c' = apply_calls cs (c\<lparr>conn_seq := conn_seq c + 1, m_target := Some t'\<rparr>)"
  using assms by (cases "m_target c") (auto simp: on_request_def res_iff)

subsection \<open>Handlers, for any target\<close>

context target_contract
begin

lemma on_request_ok:
  assumes "on_request process_request pkt c = Inr (c', h)" and "conn_ok inv c" and "done_pkt pkt"
  shows "conn_ok inv c' \<and> same_parsers c' c"
proof (cases "pkt_type pkt = Pt_dat")
  case False
  with assms show ?thesis by (auto simp: on_request_def)
next
  case True
  with assms(3) have d: "data_pkt pkt" by (simp add: data_pkt_def done_pkt_def)
  from assms(1) True show ?thesis
  proof (cases rule: on_requestE)
    case no_target
    with assms(2) show ?thesis by simp
  next
    case (target t t' cs)
    let ?c1 = "c\<lparr>conn_seq := conn_seq c + 1, m_target := Some t'\<rparr>"
    from assms(2) target(1) have t: "inv t" by (simp add: conn_ok_def)
    have "conn_ok inv ?c1" using assms(2) request_inv [OF t d target(2)] by (intro conn_ok_target) simp
    from apply_calls_ok [OF this request_calls [OF t d target(2)]] target(3) show ?thesis by simp
  qed
qed

lemma on_response_ok:
  assumes "on_response on_reply pkt c = Inr (c', h)" and "conn_ok inv c" and "done_pkt pkt"
  shows "conn_ok inv c' \<and> same_parsers c' c"
proof (cases "pkt_type pkt = Pt_dat")
  case False
  with assms show ?thesis by (auto simp: on_response_def split: list.splits if_splits)
next
  case True
  with assms(3) have d: "data_pkt pkt" by (simp add: data_pkt_def done_pkt_def)
  from assms(1) True show ?thesis
  proof (cases rule: on_responseE)
    case (no_callback req rest)
    with assms(2) show ?thesis by (simp add: conn_ok_pop)
  next
    case (callback req rest cb t t' cs)
    let ?c1 = "(ack_mode_update (tr_pkt req) pkt c)\<lparr>m_target := Some t'\<rparr>"
    have i: "inv t" using assms(2) callback(3) by (simp add: conn_ok_def)
    have "queue_ok (get_channel Requests c)" using assms(2) by (simp add: conn_ok_def)
    then have r: "data_pkt (tr_pkt req)" using callback(1,2) by (simp add: queue_ok_def)
    have "conn_ok inv ?c1" using assms(2) reply_inv [OF i r d callback(5)] by (intro conn_ok_target) simp_all
    from apply_calls_ok [OF this reply_calls [OF i r d callback(5)]] callback(6) show ?thesis
      by (simp add: conn_ok_pop)
  qed
qed

lemma packet_handler_ok:
  assumes "packet_handler process_request on_reply dir pkt c = Inr (c', h)" and "conn_ok inv c"
    and "done_pkt pkt"
  shows "conn_ok inv c' \<and> same_parsers c' c"
  using assms on_request_ok on_response_ok by (cases dir) (simp_all add: packet_handler_def)

lemma process_packet_ok:
  assumes "process_packet process_request on_reply dir rest c = Inr (c', rest')"
    and "conn_ok inv c" and "idle c"
  shows "conn_ok inv c' \<and> idle c'"
proof -
  from assms(1) obtain pkt n where p: "parse (m_packet (get_channel dir c)) rest = Inr (pkt, n)"
    by (auto simp: process_packet_def res_iff)
  let ?c1 = "upd_channel dir (\<lambda>ch. ch\<lparr>m_packet := pkt\<rparr>) c"
  from assms(2) have i: "pkt_inv pkt" using parse_inv [OF _ p] by (simp add: conn_ok_def)
  with assms(2) have c1: "conn_ok inv ?c1" by (simp add: conn_ok_def queue_ok_def)
  show ?thesis
  proof (cases "is_complete pkt")
    case False
    with assms(1,3) p c1 show ?thesis by (auto simp: process_packet_def idle_def Let_def split: if_splits)
  next
    case True
    with i have d: "done_pkt pkt" by (simp add: done_pkt_def)
    from assms(1) p True obtain c2 h
      where h: "packet_handler process_request on_reply dir pkt ?c1 = Inr (c2, h)"
      and c': "c' = upd_channel dir (\<lambda>ch. ch\<lparr>m_packet := reset (m_packet ch)\<rparr>)
          (if h then c2 else start_write dir pkt False None c2)"
      by (auto simp: process_packet_def res_iff Let_def split: if_splits)
    from packet_handler_ok [OF h c1 d] have c2: "conn_ok inv c2" "same_parsers c2 ?c1" by simp_all
    let ?c3 = "if h then c2 else start_write dir pkt False None c2"
    have c3: "conn_ok inv ?c3" "same_parsers ?c3 ?c1"
      using c2 start_write_ok [OF c2(1) d, of None dir False] same_parsers_trans by auto
    have "conn_ok inv c'" using c3(1) unfolding c' by (auto simp: conn_ok_def queue_ok_def)
    moreover have "idle c'"
      using c3(2) assms(3) unfolding c' idle_def same_parsers_def
      by (auto simp: is_complete_def reset_def)
    ultimately show ?thesis by blast
  qed
qed

lemma process_loop_ok:
  "process_loop process_request on_reply dir rest c = Inr c' \<Longrightarrow> conn_ok inv c \<Longrightarrow> idle c \<Longrightarrow>
     conn_ok inv c' \<and> idle c'"
proof (induction "length rest" arbitrary: rest c rule: less_induct)
  case less
  from less.prems(1) obtain c1 rest1
    where p: "process_packet process_request on_reply dir rest c = Inr (c1, rest1)"
      and l: "(if rest1 = [] then Inr c1 else process_loop process_request on_reply dir rest1 c1) = Inr c'"
    by (subst (asm) process_loop.simps) (auto simp: res_iff)
  from process_packet_ok [OF p less.prems(2,3)] have c1: "conn_ok inv c1" "idle c1" by simp_all
  show ?case
  proof (cases "rest1 = []")
    case True
    with l c1 show ?thesis by simp
  next
    case False
    with process_packet_rest [OF p] have "length rest1 < length rest" by auto
    with less.hyps [OF _ _ c1] l False show ?thesis by simp
  qed
qed

lemma conn_step_ok:
  assumes "conn_step process_request on_reply e c = Inr c'" and "conn_ok inv c" and "idle c"
  shows "conn_ok inv c' \<and> idle c'"
proof (cases e)
  case (Read_Done dir ec data)
  let ?c = "upd_channel dir (\<lambda>ch. ch\<lparr>ch_reading := False\<rparr>) c"
  have c: "conn_ok inv ?c" "idle ?c"
    using assms(2,3) conn_ok_flags(1) by (auto simp: idle_def)
  show ?thesis
  proof (cases "\<not> ec \<and> data \<noteq> []")
    case True
    with assms(1) Read_Done obtain c1
      where p: "process_loop process_request on_reply dir data ?c = Inr c1" and c': "c' = start_read dir c1"
      by (auto simp: read_done_def process_data_def res_iff split: if_splits)
    from process_loop_ok [OF p c] c' show ?thesis
      using conn_ok_flags(1) by (auto simp: start_read_def idle_def)
  next
    case False
    with assms(1) Read_Done c show ?thesis
      by (auto simp: read_done_def shutdown_def idle_def split: if_splits)
  qed
next
  case (Write_Done dir ec n)
  show ?thesis
  proof (cases "ch_writes (get_channel dir c)")
    case Nil
    with assms Write_Done show ?thesis by simp
  next
    case (Cons w ws)
    let ?c = "upd_channel dir (\<lambda>ch. ch\<lparr>ch_writes := ws\<rparr>) c"
    have c: "conn_ok inv ?c" "idle ?c"
      using assms(2,3) conn_ok_flags(2) by (auto simp: idle_def)
    have "c' = ?c \<or> c' = shutdown ?c \<or>
        c' = upd_channel dir (\<lambda>ch. ch\<lparr>m_transfers := tl (m_transfers ch)\<rparr>) ?c"
      using assms(1) Write_Done Cons
      by (auto simp: write_done_def split: option.splits if_splits prod.splits)
    moreover have "idle (upd_channel dir (\<lambda>ch. ch\<lparr>m_transfers := tl (m_transfers ch)\<rparr>) ?c)"
      by (rule same_parsers_idle [OF _ c(2)]) simp
    ultimately show ?thesis
      using c conn_ok_pop [OF c(1)] by (elim disjE) (simp_all add: shutdown_def idle_def)
  qed
qed

lemma conn_run_ok:
  assumes "conn_run process_request on_reply t es c" and "inv t"
  shows "conn_ok inv c \<and> idle c"
  using assms(1)
proof (induction rule: conn_run.induct)
  case conn_armed
  have n: "get_channel d (connection_new t) = channel_new" for d
    by (cases d) (simp_all add: get_channel_def connection_new_def)
  have m: "m_target (connection_new t) = Some t" by (simp add: connection_new_def)
  show ?case
    using assms(2)
    by (simp add: start_read_def conn_ok_def idle_def queue_ok_def n m channel_new_def is_complete_def
        empty_packet_def) (simp add: pkt_inv_def)
next
  case (conn_event es c e c')
  then show ?case using conn_step_ok by blast
qed

end

subsection \<open>What the peers receive\<close>

lemma done_pkt_wire:
  assumes "done_pkt p"
  shows "raw_data p = ''+'' \<or> raw_data p = ''-'' \<or> raw_data p = [CHR 0x03]
    \<or> (\<exists>s c1 c2. plain s \<and> raw_data p = CHR ''$'' # s @ [CHR ''#'', c1, c2])"
proof -
  from assms have i: "pkt_inv p" and c: "m_state p = St_complete"
    by (simp_all add: done_pkt_def is_complete_def)
  then have r: "raw_data p = m_data p" by (simp add: raw_data_def)
  have framed_type: "pkt_type p = Pt_dat"
    if "framed (body_of (m_data p))" and "length (tail_of (m_data p)) = Suc 2"
  proof -
    from that(1) obtain s where "body_of (m_data p) = CHR ''$'' # s" by (auto simp: framed_iff)
    with body_tail_split [OF that(2)] obtain t where "m_data p = CHR ''$'' # t" by auto
    then show ?thesis by (simp add: pkt_type_def)
  qed
  have "m_data p = ''+'' \<or> m_data p = ''-'' \<or> m_data p = [CHR 0x03]
      \<or> framed (body_of (m_data p)) \<and> length (tail_of (m_data p)) = Suc 2"
    using i c by (simp add: pkt_inv_def Let_def)
  with framed_type consider "m_data p = ''+''" | "m_data p = ''-''" | "m_data p = [CHR 0x03]"
    | "pkt_type p = Pt_dat" by blast
  then show ?thesis
  proof cases
    case 4
    from pkt_inv_datE [OF i c 4] r show ?thesis by metis
  qed (simp_all add: r)
qed

text \<open>One complete packet of the protocol.\<close>

definition wire_packet :: "string \<Rightarrow> bool" where
  "wire_packet s = (s = ''+'' \<or> s = ''-'' \<or> s = [CHR 0x03]
     \<or> (\<exists>d c1 c2. plain d \<and> s = CHR ''$'' # d @ [CHR ''#'', c1, c2]))"

lemma conn_ok_sent:
  "conn_ok ti c \<Longrightarrow> s \<in> set (ch_sent (get_channel dir c)) \<Longrightarrow> wire_packet s"
  unfolding conn_ok_def queue_ok_def wire_packet_def using done_pkt_wire by metis

subsection \<open>An example\<close>

lemma reset_empty [simp]: "reset p = empty_packet"
  by (cases p) (simp add: reset_def empty_packet_def)

lemma upd_channel_twice [simp]:
  "upd_channel dir f (upd_channel dir g c) = upd_channel dir (\<lambda>ch. f (g ch)) c"
  by (cases dir) (simp_all add: upd_channel_def)

abbreviation ready_for_packet :: "direction \<Rightarrow> ('t, 'cb) connection \<Rightarrow> bool" where
  "ready_for_packet dir c \<equiv> m_packet (get_channel dir c) = empty_packet"

lemma connection_new_channel [simp]:
  "get_channel d (connection_new t) = channel_new" "m_target (connection_new t) = Some t"
  by (cases d; simp add: connection_new_def get_channel_def)+

lemma next_id_new: "next_id (connection_new t) = 0"
  by (simp add: connection_new_def)

lemma start_write_channel:
  "get_channel d (start_write dir p i cb c) =
     (if d = dir then (get_channel d c)
        \<lparr>m_transfers := (let tr = \<lparr>tr_id = next_id c, tr_pkt = p, is_internal = i, on_response_cb = cb\<rparr>
           in if pkt_type p = Pt_brk then tr # m_transfers (get_channel d c)
              else m_transfers (get_channel d c) @ [tr]),
         ch_writes := ch_writes (get_channel d c) @ [(next_id c, length (raw_data p))],
         ch_sent := ch_sent (get_channel d c) @ [raw_data p]\<rparr>
      else get_channel d c)"
  by (simp add: start_write_def Let_def)

definition ack_pkt :: gdb_packet where
  "ack_pkt = \<lparr>m_data = ''+'', m_state = St_complete, m_csum = 0\<rparr>"

lemma ack_pkt_facts [simp]:
  "parse empty_packet (CHR ''+'' # s) = Inr (ack_pkt, 1)" "is_complete ack_pkt"
  "pkt_type ack_pkt = Pt_ack" "raw_data ack_pkt = ''+''" "pkt_data ack_pkt = []"
  by (simp_all add: ack_pkt_def parse_def empty_packet_def is_invalid_def packet_start_def
      is_complete_def pkt_type_def raw_data_def pkt_data_def Let_def)

lemma forward_ack:
  assumes "ready_for_packet Requests c"
  shows "process_loop pr rp Requests ''+'' c = Inr (upd_channel Requests (\<lambda>ch. ch\<lparr>m_packet := empty_packet\<rparr>)
    (start_write Requests ack_pkt False None (upd_channel Requests (\<lambda>ch. ch\<lparr>m_packet := ack_pkt\<rparr>) c)))"
  using assms
  by (subst process_loop.simps)
    (simp add: process_packet_def packet_handler_def on_request_def Let_def)

subsection \<open>Properties\<close>

text \<open>C6: Whatever the client and the remote send, in whatever pieces, every piece of output of the
  proxy with the FreeRTOS target, in both directions, is one complete packet: an acknowledgement,
  an interrupt, or \<open>$\<close>, a payload without \<open>#\<close> or \<open>*\<close>, \<open>#\<close> and two characters.\<close>

theorem mb_proxy_output:
  assumes "conn_run mb_process_request mb_on_reply (mb_new junk) es c" and "length junk = Symbol_Count"
  shows "\<forall>s\<in>set (ch_sent (get_channel dir c)). wire_packet s"
  using mb_target.conn_run_ok [OF assms(1) mb_new_inv [OF assms(2)]] conn_ok_sent by blast

theorem mb_proxy_output_witness:
  "\<exists>c. conn_run mb_process_request mb_on_reply (mb_new (replicate 13 0)) [Read_Done Requests False ''+''] c
     \<and> ch_sent (get_channel Requests c) = [''+''] \<and> wire_packet ''+''"
proof -
  let ?c0 = "start_read Responses (start_read Requests (connection_new (mb_new (replicate 13 0))))"
  let ?c1 = "upd_channel Requests (\<lambda>ch. ch\<lparr>ch_reading := False\<rparr>) ?c0"
  have r: "ready_for_packet Requests ?c1" by (simp add: start_read_def channel_new_def)
  have ok: "event_ok (Read_Done Requests False ''+'') ?c0"
    by (simp add: start_read_def buffer_capacity_def)
  obtain c where c: "conn_step mb_process_request mb_on_reply (Read_Done Requests False ''+'') ?c0 = Inr c"
    and s: "ch_sent (get_channel Requests c) = [''+'']"
    using forward_ack [OF r, of mb_process_request mb_on_reply]
    by (simp add: read_done_def process_data_def buffer_capacity_def start_read_def start_write_channel
        channel_new_def)
  from conn_run.conn_event [OF conn_run.conn_armed ok c]
  have run: "conn_run mb_process_request mb_on_reply (mb_new (replicate 13 0)) [Read_Done Requests False ''+''] c"
    by simp
  from mb_proxy_output [OF run, of Requests] s run show ?thesis
    by (auto simp: Symbol_Count_def)
qed

text \<open>The same for the null target.\<close>

theorem null_proxy_output:
  assumes "conn_run null_process_request null_on_reply () es c"
  shows "\<forall>s\<in>set (ch_sent (get_channel dir c)). wire_packet s"
  using null_target.conn_run_ok [OF assms] conn_ok_sent by blast

end
