(* ===== verification/Conn_Behaviour.thy ===== *)
theory Conn_Behaviour
  imports Conn_Safety
begin

section \<open>Connections: forwarding, matching and failures\<close>

text \<open>
  What a connection does with the bytes it reads: the result does not depend on how they are cut
  into reads; the null target makes the proxy transparent; replies are matched to requests in
  order; and the situations in which the connection fails or loses track of a request.
\<close>

subsection \<open>Frames\<close>

lemma start_write_reading [simp]:
  "ch_reading (get_channel d (start_write dir p i cb c)) = ch_reading (get_channel d c)"
  by (simp add: start_write_def Let_def)

lemma apply_calls_reading [simp]:
  "ch_reading (get_channel d (apply_calls cs c)) = ch_reading (get_channel d c)"
proof (induction cs arbitrary: c)
  case (Cons call cs)
  have "ch_reading (get_channel d (apply_call call c)) = ch_reading (get_channel d c)"
    by (cases call) simp_all
  with Cons [of "apply_call call c"] show ?case by (simp add: apply_calls_def)
qed (simp add: apply_calls_def)

lemma handler_reading:
  "packet_handler pr rp dir pkt c = Inr (c', h) \<Longrightarrow>
     ch_reading (get_channel d c') = ch_reading (get_channel d c)"
  by (cases dir)
    (auto simp: packet_handler_def on_request_def on_response_def res_iff Let_def
      split: list.splits if_splits option.splits prod.splits)

lemma process_packet_reading:
  "process_packet pr rp dir rest c = Inr (c', rest') \<Longrightarrow>
     ch_reading (get_channel d c') = ch_reading (get_channel d c)"
  by (auto simp: process_packet_def res_iff Let_def split: if_splits dest!: handler_reading [where d = d])

lemma process_loop_reading:
  "process_loop pr rp dir rest c = Inr c' \<Longrightarrow> ch_reading (get_channel d c') = ch_reading (get_channel d c)"
proof (induction "length rest" arbitrary: rest c rule: less_induct)
  case less
  from less.prems obtain c1 rest1 where p: "process_packet pr rp dir rest c = Inr (c1, rest1)"
    and l: "(if rest1 = [] then Inr c1 else process_loop pr rp dir rest1 c1) = Inr c'"
    by (subst (asm) process_loop.simps) (auto simp: res_iff)
  note r = process_packet_reading [OF p, of d]
  show ?case
  proof (cases "rest1 = []")
    case False
    with process_packet_rest [OF p] have "length rest1 < length rest" by auto
    with less.hyps [OF this] l False r show ?thesis by simp
  qed (use l r in simp)
qed

subsection \<open>Independence of the cut\<close>

lemma parse_append_error:
  assumes "parse p x = Inl e" and "x \<noteq> []"
  shows "parse p (x @ y) = Inl e"
proof -
  from assms(2) obtain ch xs where x: "x = ch # xs" by (cases x) auto
  from assms(1) have "m_state p \<noteq> St_complete" by (auto simp: parse_def)
  with state_trichotomy [of p] consider "active p" | "m_state p = St_invalid" by blast
  then show ?thesis
  proof cases
    case 1
    with assms(1) show ?thesis by (simp add: parse_active parse_loop_append)
  next
    case 2
    let ?p = "p\<lparr>m_data := m_data p @ [ch], m_state := St_data\<rparr>"
    have "active ?p" by (simp add: active_def)
    with 2 assms(1) x show ?thesis
      by (auto simp: parse_def is_invalid_def Let_def parse_loop_append split: if_splits)
  qed
qed

lemma parse_progress:
  assumes "parse p y = Inr (p', n)" and "active p" and "y \<noteq> []"
  shows "0 < n"
proof -
  from assms(3) obtain ch ys where y: "y = ch # ys" by (cases y) auto
  with assms(1,2) obtain p1 fin where pc: "parse_char p ch = Inr (p1, fin)"
    by (auto simp: parse_active res_iff)
  show ?thesis
  proof (cases fin)
    case True
    with assms(1,2) y pc show ?thesis by (auto simp: parse_active)
  next
    case False
    with assms(1,2) y pc have l: "parse_loop p1 ys 1 = Inr (p', n)" by (auto simp: parse_active)
    from False parse_char_state [OF assms(2) pc] have "active p1" by simp
    from parse_loop_state [OF this l] show ?thesis by simp
  qed
qed

text \<open>What a call of the parser on some input can be: it does not move, and then never will; or it
  leaves an unfinished or a complete packet.\<close>

lemma parse_outcome:
  assumes "parse p x = Inr (p', n)" and "x \<noteq> []"
  shows "(n = 0 \<longrightarrow> parse p (x @ y) = Inr (p', 0)) \<and> (n > 0 \<longrightarrow> active p' \<or> m_state p' = St_complete)"
proof -
  from assms(2) obtain ch xs where x: "x = ch # xs" by (cases x) auto
  consider "m_state p = St_complete" | "active p" | "m_state p = St_invalid" "\<not> packet_start ch"
    | "m_state p = St_invalid" "packet_start ch"
    using state_trichotomy [of p] by blast
  then show ?thesis
  proof cases
    case 1
    with assms(1) show ?thesis by (simp add: parse_def)
  next
    case 2
    from assms(1) 2 have "parse_loop p x 0 = Inr (p', n)" by (simp add: parse_active)
    from parse_loop_state [OF 2 this] parse_progress [OF assms(1) 2 assms(2)] show ?thesis by auto
  next
    case 3
    with assms(1) x show ?thesis by (auto simp: parse_def is_invalid_def)
  next
    case 4
    let ?p = "p\<lparr>m_data := m_data p @ [ch], m_state := St_data\<rparr>"
    have a: "active ?p" by (simp add: active_def)
    have "p' = ?p\<lparr>m_state := St_complete\<rparr> \<and> n = 1 \<or> parse_loop ?p xs 1 = Inr (p', n)"
      using assms(1) x 4 by (auto simp: parse_def is_invalid_def Let_def split: if_splits)
    then show ?thesis using parse_loop_state [OF a, of xs 1 p' n] by auto
  qed
qed

lemma process_loop_append:
  "x \<noteq> [] \<Longrightarrow> y \<noteq> [] \<Longrightarrow>
     process_loop pr rp dir (x @ y) c = bind_res (process_loop pr rp dir x c) (process_loop pr rp dir y)"
proof (induction "length x" arbitrary: x c rule: less_induct)
  case less
  let ?p = "m_packet (get_channel dir c)"
  show ?case
  proof (cases "parse ?p x")
    case (Inl e)
    with parse_append_error [OF Inl less.prems(1), of y] show ?thesis
      by (simp add: process_loop.simps [of pr rp dir "x @ y"] process_loop.simps [of pr rp dir x]
          process_packet_def)
  next
    case (Inr r)
    obtain p' n where r: "parse ?p x = Inr (p', n)" using Inr by (cases r) simp
    have n_le: "n \<le> length x" using parse_bounds(1) [OF r] .
    have "n > 0 \<Longrightarrow> m_state ?p \<noteq> St_complete" using r by (auto simp: parse_def)
    with parse_outcome [OF r less.prems(1), of y] parse_append_complete [OF r, of y]
    consider "n = 0" "parse ?p (x @ y) = Inr (p', 0)" | "active p'"
      | "is_complete p'" "n > 0" "parse ?p (x @ y) = Inr (p', n)"
      by (auto simp: is_complete_def)
    then show ?thesis
    proof cases
      case 1
      with r show ?thesis
        by (simp add: process_loop.simps [of pr rp dir "x @ y"] process_loop.simps [of pr rp dir x]
            process_packet_def)
    next
      case 2
      let ?c1 = "upd_channel dir (\<lambda>ch. ch\<lparr>m_packet := p'\<rparr>) c"
      note ap = parse_append_active [OF r 2]
      have nc: "\<not> is_complete p'" using 2 by (auto simp: active_def is_complete_def)
      have "n > 0" using ap(2) less.prems(1) by simp
      then have x: "process_loop pr rp dir x c = Inr ?c1"
        using r nc ap(2)
        by (simp add: process_loop.simps [of pr rp dir x] process_packet_def)
      have y: "process_packet pr rp dir (x @ y) c = process_packet pr rp dir y ?c1"
      proof (cases "parse p' y")
        case (Inl e)
        then show ?thesis using ap(1) [of y] by (simp add: process_packet_def)
      next
        case (Inr q)
        obtain p2 k where q: "parse p' y = Inr (p2, k)" using Inr by (cases q) simp
        from parse_progress [OF q 2 less.prems(2)] q ap show ?thesis
          by (simp add: process_packet_def comp_def Let_def cong: if_cong)
      qed
      show ?thesis
        unfolding x bind_res_simps
        by (subst (1 2) process_loop.simps) (simp add: y)
    next
      case 3
      show ?thesis
      proof (cases "process_packet pr rp dir x c")
        case (Inl e)
        with r 3 n_le have "process_packet pr rp dir (x @ y) c = Inl e"
          by (auto simp: process_packet_def Let_def bind_res_def split: sum.splits prod.splits)
        with Inl show ?thesis
          by (simp add: process_loop.simps [of pr rp dir "x @ y"] process_loop.simps [of pr rp dir x])
      next
        case (Inr q)
        obtain c' where q: "process_packet pr rp dir x c = Inr (c', drop n x)"
          using Inr r 3 by (auto simp: process_packet_def res_iff Let_def)
        then have "process_packet pr rp dir (x @ y) c = Inr (c', drop n x @ y)"
          using r 3 n_le by (auto simp: process_packet_def res_iff Let_def)
        moreover have "length (drop n x) < length x" using 3(2) less.prems(1) by simp
        ultimately show ?thesis
          using less.hyps [of "drop n x" c'] less.prems(2) q
          by (cases "drop n x = []")
            (simp_all add: process_loop.simps [of pr rp dir "x @ y"] process_loop.simps [of pr rp dir x])
      qed
    qed
  qed
qed

lemma start_read_undone:
  "\<not> ch_reading (get_channel dir c) \<Longrightarrow>
     upd_channel dir (\<lambda>ch. ch\<lparr>ch_reading := False\<rparr>) (start_read dir c) = c"
  by (cases dir; cases c; cases "get_channel dir c")
    (simp_all add: start_read_def upd_channel_def get_channel_def)

text \<open>C9: How the bytes of a stream are cut into reads does not matter: one read of two pieces has the
  same effect on the whole connection as two reads, failures included, whatever the target.\<close>

theorem stream_chunks:
  assumes "x \<noteq> []" and "y \<noteq> []" and "length (x @ y) < buffer_capacity"
  shows "conn_step pr rp (Read_Done dir False (x @ y)) c =
    bind_res (conn_step pr rp (Read_Done dir False x) c) (conn_step pr rp (Read_Done dir False y))"
proof -
  let ?c = "upd_channel dir (\<lambda>ch. ch\<lparr>ch_reading := False\<rparr>) c"
  have len: "length x < buffer_capacity" "length y < buffer_capacity" using assms(3) by simp_all
  show ?thesis
  proof (cases "process_loop pr rp dir x ?c")
    case (Inl e)
    with assms len show ?thesis
      by (simp add: read_done_def process_data_def process_loop_append)
  next
    case (Inr c1)
    from process_loop_reading [OF this, of dir] have "\<not> ch_reading (get_channel dir c1)" by simp
    with assms len Inr show ?thesis
      by (simp add: read_done_def process_data_def process_loop_append start_read_undone)
  qed
qed

theorem stream_chunks_witness:
  "conn_step null_process_request null_on_reply (Read_Done Requests False (''$m0'' @ '',4#fd+''))
      (start_read Requests (connection_new ())) =
   bind_res (conn_step null_process_request null_on_reply (Read_Done Requests False ''$m0'')
      (start_read Requests (connection_new ())))
     (conn_step null_process_request null_on_reply (Read_Done Requests False '',4#fd+''))"
  by (rule stream_chunks) (simp_all add: buffer_capacity_def)

subsection \<open>Forwarding\<close>

lemma parse_wire_plain:
  assumes "plain s"
  shows "parse empty_packet (wire s @ rest) = Inr (data_packet s, length (wire s))"
proof -
  let ?p = "\<lparr>m_data = ''$'', m_state = St_data, m_csum = 0\<rparr>"
  let ?tail = "CHR ''#'' # hex_byte (csum8 s) @ rest"
  have a: "active ?p" by (simp add: active_def)
  have f: "framed (CHR ''$'' # s)" using assms by simp
  have "parse empty_packet (wire s @ rest) = parse_loop ?p (s @ ?tail) 1"
    by (simp add: parse_def is_invalid_def empty_packet_def packet_start_def wire_def Let_def)
  also have "\<dots> = parse_loop (?p\<lparr>m_data := CHR ''$'' # s, m_csum := csum8 s\<rparr>) ?tail (1 + length s)"
    using assms by (simp add: parse_loop_append [OF a] parse_loop_plain)
  also have "\<dots> = Inr (data_packet s, length (wire s))"
    using f parse_loop_hash [of "?p\<lparr>m_data := CHR ''$'' # s, m_csum := csum8 s\<rparr>" _ _ rest "1 + length s"]
    by (simp add: hex_byte_def wire_def data_packet_def)
  finally show ?thesis .
qed

lemma process_wire:
  assumes "ready_for_packet dir c" and "plain s"
  shows "process_packet pr rp dir (wire s @ rest) c =
    bind_res (packet_handler pr rp dir (data_packet s)
        (upd_channel dir (\<lambda>ch. ch\<lparr>m_packet := data_packet s\<rparr>) c)) (\<lambda>(c2, handled).
      Inr (upd_channel dir (\<lambda>ch. ch\<lparr>m_packet := empty_packet\<rparr>)
             (if handled then c2 else start_write dir (data_packet s) False None c2), rest))"
proof -
  have "length (wire s) \<noteq> 0" by (simp add: wire_def)
  then show ?thesis
    using assms parse_wire_plain [OF assms(2), of rest]
    by (simp add: process_packet_def is_complete_def Let_def)
qed

lemma start_write_target [simp]: "m_target (start_write dir p i cb c) = m_target c"
  by (simp add: start_write_def Let_def)

subsection \<open>Everything a peer may send\<close>

text \<open>
  What the protocol has on the wire: the single characters of acknowledgements and interrupts, and
  data packets, whose payload may be run-length coded, with any two characters for the checksum.
\<close>

datatype wire_item = Item_Char char | Item_Data string char char

fun item_ok :: "wire_item \<Rightarrow> bool" where
  "item_ok (Item_Char c) = (c = CHR ''+'' \<or> c = CHR ''-'' \<or> c = CHR 0x03)"
| "item_ok (Item_Data s c1 c2) = (rle_ok s \<and> 98 * int (length s) < 2 ^ 61)"

fun item_bytes :: "wire_item \<Rightarrow> string" where
  "item_bytes (Item_Char c) = [c]"
| "item_bytes (Item_Data s c1 c2) = CHR ''$'' # s @ [CHR ''#'', c1, c2]"

text \<open>What is written for it: runs are expanded, the checksum is the one received.\<close>

fun passed_on :: "wire_item \<Rightarrow> string" where
  "passed_on (Item_Char c) = [c]"
| "passed_on (Item_Data s c1 c2) = CHR ''$'' # rle_expand (CHR ''$'') s @ [CHR ''#'', c1, c2]"

fun item_packet :: "wire_item \<Rightarrow> gdb_packet" where
  "item_packet (Item_Char c) = \<lparr>m_data = [c], m_state = St_complete, m_csum = 0\<rparr>"
| "item_packet (Item_Data s c1 c2) =
     \<lparr>m_data = passed_on (Item_Data s c1 c2), m_state = St_complete, m_csum = csum8 s\<rparr>"

fun item_data :: "wire_item \<Rightarrow> bool" where
  "item_data (Item_Char c) = False"
| "item_data (Item_Data s c1 c2) = True"

fun item_unchanged :: "wire_item \<Rightarrow> bool" where
  "item_unchanged (Item_Char c) = True"
| "item_unchanged (Item_Data s c1 c2) = (CHR ''*'' \<notin> set s)"

lemma rle_expand_no_star: "CHR ''*'' \<notin> set s \<Longrightarrow> rle_expand c s = s"
  by (induction s arbitrary: c) auto

lemma passed_on_unchanged: "item_unchanged w \<Longrightarrow> passed_on w = item_bytes w"
  by (cases w) (simp_all add: rle_expand_no_star)

lemma item_packet_facts [simp]:
  "m_state (item_packet w) = St_complete" "m_data (item_packet w) = passed_on w"
  "raw_data (item_packet w) = passed_on w"
  by (cases w; simp add: raw_data_def)+

lemma item_packet_type:
  "item_data w \<Longrightarrow> pkt_type (item_packet w) = Pt_dat"
  "item_ok w \<Longrightarrow> (pkt_type (item_packet w) = Pt_dat) = item_data w"
  "item_ok w \<Longrightarrow> (pkt_type (item_packet w) = Pt_brk) = (w = Item_Char (CHR 0x03))"
  by (cases w; auto simp: pkt_type_def)+

lemma item_bytes_not_Nil [simp]: "item_bytes w \<noteq> []"
  by (cases w) simp_all

lemma parse_item:
  "item_ok w \<Longrightarrow> parse empty_packet (item_bytes w @ rest) = Inr (item_packet w, length (item_bytes w))"
  using parse_wire_aux(1)
  by (cases w) (auto simp: parse_def empty_packet_def is_invalid_def packet_start_def Let_def)

lemma process_item:
  assumes "ready_for_packet dir c" and "item_ok w"
  shows "process_packet pr rp dir (item_bytes w @ rest) c =
    bind_res (packet_handler pr rp dir (item_packet w)
        (upd_channel dir (\<lambda>ch. ch\<lparr>m_packet := item_packet w\<rparr>) c)) (\<lambda>(c2, handled).
      Inr (upd_channel dir (\<lambda>ch. ch\<lparr>m_packet := empty_packet\<rparr>)
             (if handled then c2 else start_write dir (item_packet w) False None c2), rest))"
  using assms parse_item [OF assms(2), of rest]
  by (simp add: process_packet_def is_complete_def Let_def)

lemma process_items_Cons:
  assumes "process_packet pr rp dir (item_bytes w @ concat (map item_bytes ws)) c = Inr (c1, concat (map item_bytes ws))"
  shows "process_loop pr rp dir (concat (map item_bytes (w # ws))) c =
    (if ws = [] then Inr c1 else process_loop pr rp dir (concat (map item_bytes ws)) c1)"
  using assms by (subst process_loop.simps) (cases ws; simp)

text \<open>The queue of a channel: an interrupt goes to its front.\<close>

fun enqueue :: "gdb_packet list \<Rightarrow> wire_item \<Rightarrow> gdb_packet list" where
  "enqueue q w = (if w = Item_Char (CHR 0x03) then item_packet w # q else q @ [item_packet w])"

lemma null_request_item:
  assumes "ready_for_packet Requests c" and "m_target c = Some ()" and "item_ok w"
  shows "\<exists>c'. process_packet null_process_request rp Requests (item_bytes w @ rest) c = Inr (c', rest)
    \<and> ready_for_packet Requests c' \<and> m_target c' = Some ()
    \<and> ch_sent (get_channel Requests c') = ch_sent (get_channel Requests c) @ [passed_on w]
    \<and> map tr_pkt (m_transfers (get_channel Requests c'))
        = enqueue (map tr_pkt (m_transfers (get_channel Requests c))) w
    \<and> get_channel Responses c' = get_channel Responses c"
  unfolding process_item [OF assms(1,3)]
  using assms(2) item_packet_type(2,3) [OF assms(3)]
  by (cases "w = Item_Char (CHR 0x03)")
    (simp_all add: packet_handler_def on_request_def null_process_request_def apply_calls_def
      start_write_channel raw_data_def Let_def)

text \<open>C22: With the null target the proxy hands everything the client sends on to the remote, in order:
  acknowledgements, interrupts and data packets with any checksum characters. Each goes through
  unchanged, but for a run-length coded payload, which is expanded (under the received checksum, see
  \<open>rle_forward_checksum\<close>). Each is queued to await its reply, an interrupt in front of the others,
  and the client is sent nothing. A payload in which a \<open>*\<close> is not followed by a count of at least one
  is outside this statement (\<open>parse_failures\<close>).\<close>

theorem null_forwards_requests:
  assumes "ws \<noteq> []" and "\<forall>w\<in>set ws. item_ok w" and "ready_for_packet Requests c"
    and "m_target c = Some ()"
  shows "\<exists>c'. process_loop null_process_request null_on_reply Requests (concat (map item_bytes ws)) c = Inr c'
    \<and> ch_sent (get_channel Requests c') = ch_sent (get_channel Requests c) @ map passed_on ws
    \<and> map tr_pkt (m_transfers (get_channel Requests c'))
        = foldl enqueue (map tr_pkt (m_transfers (get_channel Requests c))) ws
    \<and> get_channel Responses c' = get_channel Responses c
    \<and> (\<forall>w\<in>set ws. item_unchanged w \<longrightarrow> passed_on w = item_bytes w)"
  using assms
proof (induction ws arbitrary: c)
  case (Cons w ws)
  obtain c1 where c1: "process_packet null_process_request null_on_reply Requests
        (item_bytes w @ concat (map item_bytes ws)) c = Inr (c1, concat (map item_bytes ws))"
    "ready_for_packet Requests c1" "m_target c1 = Some ()"
    "ch_sent (get_channel Requests c1) = ch_sent (get_channel Requests c) @ [passed_on w]"
    "map tr_pkt (m_transfers (get_channel Requests c1))
        = enqueue (map tr_pkt (m_transfers (get_channel Requests c))) w"
    "get_channel Responses c1 = get_channel Responses c"
    using null_request_item [OF Cons.prems(3,4), of w null_on_reply "concat (map item_bytes ws)"] Cons.prems(2)
    by auto
  note p = process_items_Cons [OF c1(1)]
  show ?case
  proof (cases "ws = []")
    case True
    with p c1 show ?thesis by (simp add: passed_on_unchanged del: enqueue.simps)
  next
    case False
    with Cons.IH [OF False _ c1(2,3)] Cons.prems(2) p c1 show ?thesis
      by (auto simp: passed_on_unchanged simp del: enqueue.simps)
  qed
qed simp

theorem null_forwards_requests_witness:
  "\<exists>c'. process_loop null_process_request null_on_reply Requests (''+'' @ ''$X0* #12'' @ [CHR 0x03]) (connection_new ())
      = Inr c' \<and> ch_sent (get_channel Requests c') = [''+'', ''$X0000#12'', [CHR 0x03]]
    \<and> pkt_type (tr_pkt (hd (m_transfers (get_channel Requests c')))) = Pt_brk"
proof -
  let ?c = "connection_new () :: (unit, unit) connection"
  let ?ws = "[Item_Char (CHR ''+''), Item_Data ''X0* '' (CHR ''1'') (CHR ''2''), Item_Char (CHR 0x03)]"
  have "rle_ok ''X0* ''" by code_simp
  then have ne: "?ws \<noteq> []" and ok: "\<forall>w\<in>set ?ws. item_ok w" by simp_all
  have r: "ready_for_packet Requests ?c" and t: "m_target ?c = Some ()"
    and e: "ch_sent (get_channel Requests ?c) = []" "m_transfers (get_channel Requests ?c) = []"
    by (simp_all add: channel_new_def)
  have "rle_expand (CHR ''$'') ''X0* '' = ''X0000''" by code_simp
  then have w: "map passed_on ?ws = [''+'', ''$X0000#12'', [CHR 0x03]]" by simp
  have b: "concat (map item_bytes ?ws) = ''+'' @ ''$X0* #12'' @ [CHR 0x03]" by simp
  from null_forwards_requests [OF ne ok r t] obtain c'
    where "process_loop null_process_request null_on_reply Requests (concat (map item_bytes ?ws)) ?c = Inr c'"
      and "ch_sent (get_channel Requests c') = ch_sent (get_channel Requests ?c) @ map passed_on ?ws"
      and q: "map tr_pkt (m_transfers (get_channel Requests c'))
        = foldl enqueue (map tr_pkt (m_transfers (get_channel Requests ?c))) ?ws"
    by (elim exE conjE) (rule that)
  moreover from q have "pkt_type (tr_pkt (hd (m_transfers (get_channel Requests c')))) = Pt_brk"
    unfolding e by (cases "m_transfers (get_channel Requests c')") (auto simp: pkt_type_def)
  ultimately show ?thesis unfolding e b w by (intro exI [of _ c']) simp
qed

subsection \<open>Matching replies\<close>

fun call_dir :: "'cb conn_call \<Rightarrow> direction" where
  "call_dir (Internal_Request p cb) = Requests"
| "call_dir (Client_Request p cb) = Requests"
| "call_dir (Internal_Response p) = Responses"

definition sent_by :: "direction \<Rightarrow> 'cb conn_call list \<Rightarrow> gdb_packet list" where
  "sent_by d cs = map call_packet (filter (\<lambda>call. call_dir call = d) cs)"

lemma call_ok_not_brk: "call_ok call \<Longrightarrow> pkt_type (call_packet call) \<noteq> Pt_brk"
  by (simp add: call_ok_def data_pkt_def)

lemma apply_call_channel:
  assumes "call_ok call"
  shows "\<exists>new. m_transfers (get_channel d (apply_call call c)) = m_transfers (get_channel d c) @ new
      \<and> map tr_pkt new = sent_by d [call]
    \<and> ch_sent (get_channel d (apply_call call c)) = ch_sent (get_channel d c) @ map raw_data (sent_by d [call])"
  using call_ok_not_brk [OF assms]
  by (cases call) (auto simp: start_write_channel sent_by_def Let_def)

lemma apply_calls_channel:
  assumes "list_all call_ok cs"
  shows "\<exists>new. m_transfers (get_channel d (apply_calls cs c)) = m_transfers (get_channel d c) @ new
      \<and> map tr_pkt new = sent_by d cs
    \<and> ch_sent (get_channel d (apply_calls cs c)) = ch_sent (get_channel d c) @ map raw_data (sent_by d cs)"
  using assms
proof (induction cs arbitrary: c)
  case Nil
  then show ?case by (simp add: apply_calls_def sent_by_def)
next
  case (Cons call cs)
  obtain n1 where n1: "m_transfers (get_channel d (apply_call call c)) = m_transfers (get_channel d c) @ n1"
    "map tr_pkt n1 = sent_by d [call]"
    "ch_sent (get_channel d (apply_call call c)) = ch_sent (get_channel d c) @ map raw_data (sent_by d [call])"
    using apply_call_channel [of call d c] Cons.prems by auto
  obtain n2 where n2: "m_transfers (get_channel d (apply_calls cs (apply_call call c)))
      = m_transfers (get_channel d (apply_call call c)) @ n2" "map tr_pkt n2 = sent_by d cs"
    "ch_sent (get_channel d (apply_calls cs (apply_call call c)))
      = ch_sent (get_channel d (apply_call call c)) @ map raw_data (sent_by d cs)"
    using Cons.IH [of "apply_call call c"] Cons.prems by auto
  have "apply_calls (call # cs) c = apply_calls cs (apply_call call c)" by (simp add: apply_calls_def)
  moreover have "sent_by d (call # cs) = sent_by d [call] @ sent_by d cs" by (simp add: sent_by_def)
  ultimately show ?case using n1 n2 by (intro exI [of _ "n1 @ n2"]) simp
qed

lemma apply_calls_target [simp]: "m_target (apply_calls cs c) = m_target c"
proof (induction cs arbitrary: c)
  case (Cons call cs)
  have "m_target (apply_call call c) = m_target c" by (cases call) simp_all
  with Cons [of "apply_call call c"] show ?case by (simp add: apply_calls_def)
qed (simp add: apply_calls_def)

text \<open>C10: A reply is matched to the oldest request. Its callback gets the request and the reply, the
  packets it pushes are sent in order, the request leaves the queue, and the reply is passed on
  to the client, after what the callback pushed, exactly if the request is not an internal one.\<close>

theorem response_matching:
  assumes "m_transfers (get_channel Requests c) = req # rest" and "on_response_cb req = Some cb"
    and "m_target c = Some t" and "rp cb (tr_pkt req) (data_packet s) t = Inr (t', calls)"
    and "list_all call_ok calls" and "ready_for_packet Responses c" and "plain s"
  shows "\<exists>c' new. process_packet pr rp Responses (wire s @ later) c = Inr (c', later)
    \<and> m_target c' = Some t'
    \<and> m_transfers (get_channel Requests c') = rest @ new \<and> map tr_pkt new = sent_by Requests calls
    \<and> ch_sent (get_channel Requests c')
        = ch_sent (get_channel Requests c) @ map raw_data (sent_by Requests calls)
    \<and> ch_sent (get_channel Responses c') = ch_sent (get_channel Responses c)
        @ map raw_data (sent_by Responses calls) @ (if is_internal req then [] else [wire s])"
proof -
  let ?c0 = "upd_channel Responses (\<lambda>ch. ch\<lparr>m_packet := data_packet s\<rparr>) c"
  let ?c1 = "(ack_mode_update (tr_pkt req) (data_packet s) ?c0)\<lparr>m_target := Some t'\<rparr>"
  let ?c2 = "apply_calls calls ?c1"
  let ?c3 = "upd_channel Requests (\<lambda>ch. ch\<lparr>m_transfers := tl (m_transfers ch)\<rparr>) ?c2"
  have t0: "m_transfers (m_requests_channel ?c0) = req # rest"
    using assms(1) by (simp add: requests_channel)
  have c1: "get_channel d ?c1 = get_channel d ?c0" for d by simp
  have h: "packet_handler pr rp Responses (data_packet s) ?c0 = Inr (?c3, is_internal req)"
    using assms(2-4) t0 by (simp add: packet_handler_def on_response_def Let_def)
  obtain new where new: "m_transfers (get_channel Requests ?c2) = req # rest @ new"
    "map tr_pkt new = sent_by Requests calls"
    "ch_sent (get_channel Requests ?c2)
        = ch_sent (get_channel Requests c) @ map raw_data (sent_by Requests calls)"
    using apply_calls_channel [OF assms(5), of Requests ?c1] assms(1) unfolding c1 by auto
  have resp: "ch_sent (get_channel Responses ?c2)
        = ch_sent (get_channel Responses c) @ map raw_data (sent_by Responses calls)"
    using apply_calls_channel [OF assms(5), of Responses ?c1] unfolding c1 by auto
  show ?thesis
    unfolding process_wire [OF assms(6,7)] h bind_res_simps
    using new resp
    by (intro exI [of _ "upd_channel Responses (\<lambda>ch. ch\<lparr>m_packet := empty_packet\<rparr>)
          (if is_internal req then ?c3 else start_write Responses (data_packet s) False None ?c3)"]
        exI [of _ new])
      (simp add: start_write_channel)
qed

definition waiting ::
  "('t, 'cb) connection \<Rightarrow> 'cb transfer list \<Rightarrow> ('t, 'cb) connection" where
  "waiting c trs = upd_channel Requests (\<lambda>ch. ch\<lparr>m_transfers := trs\<rparr>) c"

lemma waiting_fields [simp]:
  "m_transfers (get_channel Requests (waiting c trs)) = trs" "m_target (waiting c trs) = m_target c"
  "ch_sent (get_channel d (waiting c trs)) = ch_sent (get_channel d c)"
  "ch_writes (get_channel d (waiting c trs)) = ch_writes (get_channel d c)"
  "m_packet (get_channel d (waiting c trs)) = m_packet (get_channel d c)"
  "next_id (waiting c trs) = next_id c"
  by (simp_all add: waiting_def)

theorem response_matching_witness:
  "\<exists>c'. process_packet mb_process_request mb_on_reply Responses (wire '';multiprocess+'' @ [])
      (waiting (connection_new (mb_new (replicate 13 0)))
        [\<lparr>tr_id = 0, tr_pkt = data_packet ''qSupported'', is_internal = False,
          on_response_cb = Some Cb_qSupported\<rparr>]) = Inr (c', [])
    \<and> m_transfers (get_channel Requests c') = []
    \<and> ch_sent (get_channel Responses c') = [wire '';multiprocess+'']"
proof -
  let ?t = "mb_new (replicate 13 0)" and ?s = "'';multiprocess+''"
  let ?req = "\<lparr>tr_id = 0, tr_pkt = data_packet ''qSupported'', is_internal = False,
      on_response_cb = Some Cb_qSupported\<rparr>"
  let ?c = "waiting (connection_new ?t) [?req]"
  let ?t' = "(?t\<lparr>m_conn := []\<rparr>)\<lparr>mb_multiprocess := True, m_conn := []\<rparr>"
  have p: "mb_on_reply Cb_qSupported (tr_pkt ?req) (data_packet ?s) ?t = Inr (?t', [])"
    by (simp add: mb_on_reply_def run_callback_def cb_qSupported_def sv_contains_def)
  have q: "m_transfers (get_channel Requests ?c) = ?req # []" "on_response_cb ?req = Some Cb_qSupported"
    "m_target ?c = Some ?t" "list_all call_ok ([] :: mb_cb conn_call list)"
    "ready_for_packet Responses ?c" "plain ?s" by (simp_all add: channel_new_def)
  from response_matching [where rp = mb_on_reply and pr = mb_process_request and later = "[]",
      OF q(1-3) p q(4-6)] obtain c' new
    where "process_packet mb_process_request mb_on_reply Responses (wire ?s @ []) ?c = Inr (c', [])"
      and "m_transfers (get_channel Requests c') = [] @ new"
      and "map tr_pkt new = sent_by Requests ([] :: mb_cb conn_call list)"
      and "ch_sent (get_channel Responses c') = ch_sent (get_channel Responses ?c)
        @ map raw_data (sent_by Responses ([] :: mb_cb conn_call list)) @ (if is_internal ?req then [] else [wire ?s])"
    by (elim exE conjE) (rule that)
  then show ?thesis by (intro exI [of _ c']) (simp add: sent_by_def channel_new_def)
qed

lemma response_plain_wire:
  assumes "m_transfers (get_channel Requests c) = req # rest" and "on_response_cb req = None"
    and "\<not> is_internal req" and "ready_for_packet Responses c" and "plain s"
  shows "\<exists>c'. process_packet pr rp Responses (wire s @ later) c = Inr (c', later)
    \<and> ready_for_packet Responses c' \<and> m_transfers (get_channel Requests c') = rest
    \<and> m_target c' = m_target c
    \<and> ch_sent (get_channel Responses c') = ch_sent (get_channel Responses c) @ [wire s]"
proof -
  have t: "m_transfers (m_requests_channel (upd_channel Responses f c)) = req # rest" for f
    using assms(1) by (simp add: requests_channel)
  show ?thesis
    unfolding process_wire [OF assms(4,5)] using assms(1-3)
    by (simp add: packet_handler_def on_response_def t start_write_channel Let_def)
qed

lemma response_item:
  assumes "m_transfers (get_channel Requests c) = req # rest" and "on_response_cb req = None"
    and "\<not> is_internal req" and "ready_for_packet Responses c" and "item_ok w"
  shows "\<exists>c'. process_packet pr rp Responses (item_bytes w @ later) c = Inr (c', later)
    \<and> ready_for_packet Responses c'
    \<and> m_transfers (get_channel Requests c') = (if item_data w then rest else req # rest)
    \<and> m_target c' = m_target c
    \<and> ch_sent (get_channel Responses c') = ch_sent (get_channel Responses c) @ [passed_on w]"
proof -
  have t: "m_transfers (m_requests_channel (upd_channel Responses f c)) = req # rest" for f
    using assms(1) by (simp add: requests_channel)
  show ?thesis
    unfolding process_item [OF assms(4,5)] using assms(1-3) item_packet_type(2) [OF assms(5)]
    by (simp add: packet_handler_def on_response_def t start_write_channel Let_def)
qed

text \<open>C23: For packets of the client that were sent without the target's doing (all packets, with the null
  target), everything the remote sends while they await their replies is passed on to the client in
  order: acknowledgements, and replies with any checksum characters, each unchanged but for a
  run-length coded payload, which is expanded (under the received checksum). One request leaves the
  queue for each reply and none for an acknowledgement.\<close>

theorem forwards_responses:
  assumes "ws \<noteq> []" and "\<forall>w\<in>set ws. item_ok w" and "ready_for_packet Responses c"
    and "m_transfers (get_channel Requests c) = reqs @ rest"
    and "length reqs = length (filter item_data ws)" and "item_data (last ws)"
    and "\<forall>r\<in>set reqs. on_response_cb r = None \<and> \<not> is_internal r"
  shows "\<exists>c'. process_loop pr rp Responses (concat (map item_bytes ws)) c = Inr c'
    \<and> m_transfers (get_channel Requests c') = rest
    \<and> ch_sent (get_channel Responses c') = ch_sent (get_channel Responses c) @ map passed_on ws
    \<and> (\<forall>w\<in>set ws. item_unchanged w \<longrightarrow> passed_on w = item_bytes w)"
  using assms
proof (induction ws arbitrary: c reqs)
  case (Cons w ws)
  have "last (w # ws) \<in> set (w # ws)" by (rule last_in_set) simp
  with Cons.prems(6) have "last (w # ws) \<in> set (filter item_data (w # ws))" by (simp only: set_filter mem_Collect_eq)
  then obtain r reqs' where r: "reqs = r # reqs'"
    using Cons.prems(5) by (cases reqs) (auto simp: filter_empty_conv split: if_splits)
  have "m_transfers (get_channel Requests c) = r # reqs' @ rest" using Cons.prems(4) r by simp
  from response_item [OF this _ _ Cons.prems(3), of w pr rp "concat (map item_bytes ws)"]
  obtain c1 where c1: "process_packet pr rp Responses (item_bytes w @ concat (map item_bytes ws)) c
      = Inr (c1, concat (map item_bytes ws))" "ready_for_packet Responses c1"
    "m_transfers (get_channel Requests c1) = (if item_data w then reqs' else r # reqs') @ rest"
    "ch_sent (get_channel Responses c1) = ch_sent (get_channel Responses c) @ [passed_on w]"
    using Cons.prems(2,7) r by auto
  note p = process_items_Cons [OF c1(1)]
  show ?case
  proof (cases "ws = []")
    case True
    with p c1 r Cons.prems(5,6) show ?thesis by (simp add: passed_on_unchanged)
  next
    case False
    have "length (if item_data w then reqs' else r # reqs') = length (filter item_data ws)"
      using Cons.prems(5) r by (cases "item_data w") simp_all
    from Cons.IH [OF False _ c1(2,3) this] False Cons.prems(2,6,7) r p c1(4) show ?thesis
      by (auto simp: passed_on_unchanged)
  qed
qed simp

theorem forwards_responses_witness:
  "\<exists>c'. process_loop null_process_request null_on_reply Responses ''+$0* #12''
      (waiting (connection_new ()) [\<lparr>tr_id = 0, tr_pkt = data_packet ''g'', is_internal = False,
         on_response_cb = None\<rparr>]) = Inr c' \<and> m_transfers (get_channel Requests c') = []
    \<and> ch_sent (get_channel Responses c') = [''+'', ''$0000#12'']"
proof -
  let ?r = "\<lparr>tr_id = 0, tr_pkt = data_packet ''g'', is_internal = False, on_response_cb = None :: unit option\<rparr>"
  let ?c = "waiting (connection_new ()) [?r]"
  let ?ws = "[Item_Char (CHR ''+''), Item_Data ''0* '' (CHR ''1'') (CHR ''2'')]"
  have "rle_ok ''0* ''" by code_simp
  then have q: "?ws \<noteq> []" "\<forall>w\<in>set ?ws. item_ok w" "ready_for_packet Responses ?c"
    "m_transfers (get_channel Requests ?c) = [?r] @ []" "length [?r] = length (filter item_data ?ws)"
    "item_data (last ?ws)" "\<forall>r\<in>set [?r]. on_response_cb r = None \<and> \<not> is_internal r"
    by (simp_all add: channel_new_def)
  have "rle_expand (CHR ''$'') ''0* '' = ''0000''" by code_simp
  then have w: "map passed_on ?ws = [''+'', ''$0000#12'']" by simp
  have b: "concat (map item_bytes ?ws) = ''+$0* #12''" by simp
  from forwards_responses [OF q, of null_process_request null_on_reply] obtain c'
    where "process_loop null_process_request null_on_reply Responses (concat (map item_bytes ?ws)) ?c = Inr c'"
      and "m_transfers (get_channel Requests c') = []"
      and "ch_sent (get_channel Responses c') = ch_sent (get_channel Responses ?c) @ map passed_on ?ws"
    by (elim exE conjE) (rule that)
  then show ?thesis unfolding b w by (intro exI [of _ c']) (simp add: channel_new_def)
qed

end
