(* ===== verification/Temporal.thy ===== *)
theory Temporal
  imports Prelude
begin

section \<open>On every run, eventually\<close>

text \<open>
  The temporal operator of the liveness properties, for a step relation whose steps may fail:
  \<open>inevitable step P s\<close> says that every run from \<open>s\<close> comes to a state of \<open>P\<close>, and that before it
  does no step fails and no state is without a step.
\<close>

inductive inevitable :: "('s \<Rightarrow> 's res \<Rightarrow> bool) \<Rightarrow> ('s \<Rightarrow> bool) \<Rightarrow> 's \<Rightarrow> bool" for step P where
  now: "P s \<Longrightarrow> inevitable step P s"
| later: "\<exists>r. step s r \<Longrightarrow> (\<forall>r. step s r \<longrightarrow> (\<exists>s'. r = Inr s' \<and> inevitable step P s'))
    \<Longrightarrow> inevitable step P s"

lemma inevitable_leads:
  assumes "inevitable step P s" and "\<And>s. P s \<Longrightarrow> inevitable step Q s"
  shows "inevitable step Q s"
  using assms(1)
proof (induction rule: inevitable.induct)
  case (now s)
  then show ?case by (rule assms(2))
next
  case (later s)
  then show ?case by (intro inevitable.later) blast+
qed

lemma inevitable_mono: "inevitable step P s \<Longrightarrow> (\<And>s. P s \<Longrightarrow> Q s) \<Longrightarrow> inevitable step Q s"
  by (erule inevitable_leads) (simp add: inevitable.now)

text \<open>What the operator means for runs as sequences: an endless run comes to \<open>P\<close> too.\<close>

lemma inevitable_run:
  assumes "inevitable step P s" and "\<sigma> 0 = s" and "\<forall>i :: nat. step (\<sigma> i) (Inr (\<sigma> (Suc i)))"
  shows "\<exists>i. P (\<sigma> i)"
  using assms
proof (induction arbitrary: \<sigma> rule: inevitable.induct)
  case (now s)
  then show ?case by metis
next
  case (later s)
  have "step s (Inr (\<sigma> 1))" using later.prems by (metis One_nat_def)
  with later(2) have IH: "\<forall>\<tau>. \<tau> 0 = \<sigma> 1 \<longrightarrow> (\<forall>i. step (\<tau> i) (Inr (\<tau> (Suc i)))) \<longrightarrow> (\<exists>i. P (\<tau> i))"
    by blast
  have "\<exists>i. P (\<sigma> (Suc i))"
    using IH [rule_format, of "\<lambda>i. \<sigma> (Suc i)"] later.prems(2) by simp
  then show ?case by blast
qed

text \<open>A finite run that can go no further has come to \<open>P\<close>, and has not failed.\<close>

inductive run_to :: "('s \<Rightarrow> 's res \<Rightarrow> bool) \<Rightarrow> ('s \<Rightarrow> bool) \<Rightarrow> 's \<Rightarrow> 's res \<Rightarrow> bool" for step P where
  run_refl: "run_to step P s (Inr s)"
| run_step: "run_to step P s (Inr s') \<Longrightarrow> \<not> P s' \<Longrightarrow> step s' r \<Longrightarrow> run_to step P s r"

lemma inevitable_run_to:
  assumes "run_to step P s r" and "inevitable step P s"
  shows "\<exists>s'. r = Inr s' \<and> inevitable step P s'"
  using assms
proof (induction rule: run_to.induct)
  case (run_step s s' r)
  then have "inevitable step P s'" by blast
  with run_step(2,3) show ?case by (auto elim: inevitable.cases)
qed simp

end
