(* ===== verification/Closed_System.thy ===== *)
theory Closed_System
  imports Conn_Behaviour Temporal
begin

section \<open>The proxy between its peers\<close>

text \<open>
  A connection closed with its two peers. A packet that has been handed to a socket may reach its
  receiver at any time, before or after the completion handler of the write runs; the remote then
  answers a data packet, and the client may send something; the bytes on their way to the proxy
  are read in pieces of any size. So a reply may be read before the completion handler of its
  request's write has run; that handler's reference then dangles (\<open>early_reply_dangles\<close>). What is
  proved here is about the \<open>orderly\<close> runs, in which no bytes of the remote are read while the
  completion handler of a write to the remote is still to run, and no read fills the buffer. All
  other orders of reads, completions and receptions are among them. Neither connection breaks, and
  packets arrive in the order they were handed to the socket.
\<close>

subsection \<open>States and steps\<close>

record ('t, 'cb) sys =
  sys_conn :: "('t, 'cb) connection"
  from_client :: string
  from_remote :: string
  seen_by_remote :: nat
  seen_by_client :: nat

definition stream :: "direction \<Rightarrow> ('t, 'cb) sys \<Rightarrow> string" where
  "stream d s = (case d of Requests \<Rightarrow> from_client s | Responses \<Rightarrow> from_remote s)"

definition set_stream :: "direction \<Rightarrow> string \<Rightarrow> ('t, 'cb) sys \<Rightarrow> ('t, 'cb) sys" where
  "set_stream d x s = (case d of Requests \<Rightarrow> s\<lparr>from_client := x\<rparr> | Responses \<Rightarrow> s\<lparr>from_remote := x\<rparr>)"

text \<open>How many of the packets handed to the socket of a channel their receiver has got, and the others.\<close>

definition seen :: "direction \<Rightarrow> ('t, 'cb) sys \<Rightarrow> nat" where
  "seen d s = (case d of Requests \<Rightarrow> seen_by_remote s | Responses \<Rightarrow> seen_by_client s)"

definition set_seen :: "direction \<Rightarrow> nat \<Rightarrow> ('t, 'cb) sys \<Rightarrow> ('t, 'cb) sys" where
  "set_seen d n s = (case d of Requests \<Rightarrow> s\<lparr>seen_by_remote := n\<rparr> | Responses \<Rightarrow> s\<lparr>seen_by_client := n\<rparr>)"

definition unseen :: "direction \<Rightarrow> ('t, 'cb) sys \<Rightarrow> string list" where
  "unseen d s = drop (seen d s) (ch_sent (get_channel d (sys_conn s)))"

fun opposite :: "direction \<Rightarrow> direction" where
  "opposite Requests = Responses"
| "opposite Responses = Requests"

text \<open>
  The remote acknowledges a data packet if acknowledgements are on, and sends the packet with its
  reply; \<open>f\<close> takes the payload of the request to the one of the reply. The client sends the bytes
  that \<open>g\<close> gives for the payload of a data packet.
\<close>

definition remote_bytes :: "bool \<Rightarrow> (string \<Rightarrow> string) \<Rightarrow> string \<Rightarrow> string" where
  "remote_bytes acks f raw =
     (case parse empty_packet raw of
        Inl e \<Rightarrow> []
      | Inr (p, n) \<Rightarrow>
          if pkt_type p = Pt_dat then (if acks then ''+'' else []) @ wire (f (pkt_data p)) else [])"

definition client_bytes :: "(string \<Rightarrow> string) \<Rightarrow> string \<Rightarrow> string" where
  "client_bytes g raw =
     (case parse empty_packet raw of
        Inl e \<Rightarrow> []
      | Inr (p, n) \<Rightarrow> if pkt_type p = Pt_dat then g (pkt_data p) else [])"

definition peer_bytes ::
  "bool \<Rightarrow> (string \<Rightarrow> string) \<Rightarrow> (string \<Rightarrow> string) \<Rightarrow> direction \<Rightarrow> string \<Rightarrow> string" where
  "peer_bytes acks f g d raw = (case d of Requests \<Rightarrow> remote_bytes acks f raw | Responses \<Rightarrow> client_bytes g raw)"

datatype sys_event =
    Read direction string string       \<comment> \<open>the bytes read, and those left\<close>
  | Written direction nat              \<comment> \<open>the completion handler of the oldest write\<close>
  | Received direction                 \<comment> \<open>the next packet reaches its receiver\<close>

fun sys_ok :: "sys_event \<Rightarrow> ('t, 'cb) sys \<Rightarrow> bool" where
  "sys_ok (Read d x y) s = (event_ok (Read_Done d False x) (sys_conn s) \<and> x \<noteq> [] \<and> stream d s = x @ y)"
| "sys_ok (Written d n) s = event_ok (Write_Done d False n) (sys_conn s)"
| "sys_ok (Received d) s = (unseen d s \<noteq> [])"

fun sys_exec ::
  "('t, 'cb) request_fun \<Rightarrow> ('t, 'cb) reply_fun \<Rightarrow> bool \<Rightarrow> (string \<Rightarrow> string) \<Rightarrow> (string \<Rightarrow> string)
     \<Rightarrow> sys_event \<Rightarrow> ('t, 'cb) sys \<Rightarrow> ('t, 'cb) sys res" where
  "sys_exec pr rp acks f g (Read d x y) s =
     bind_res (conn_step pr rp (Read_Done d False x) (sys_conn s)) (\<lambda>c. Inr (set_stream d y (s\<lparr>sys_conn := c\<rparr>)))"
| "sys_exec pr rp acks f g (Written d n) s =
     bind_res (conn_step pr rp (Write_Done d False n) (sys_conn s)) (\<lambda>c. Inr (s\<lparr>sys_conn := c\<rparr>))"
| "sys_exec pr rp acks f g (Received d) s =
     Inr (set_seen d (Suc (seen d s)) (set_stream (opposite d)
       (stream (opposite d) s @ peer_bytes acks f g d (hd (unseen d s))) s))"

text \<open>Bytes of the remote are read while the completion handler of a write to the remote is still to run.\<close>

fun overtakes :: "sys_event \<Rightarrow> ('t, 'cb) sys \<Rightarrow> bool" where
  "overtakes (Read d x y) s = (d = Responses \<and> ch_writes (get_channel Requests (sys_conn s)) \<noteq> [])"
| "overtakes e s = False"

text \<open>A read may also fill the buffer, which the proxy does not survive either (\<open>read_failures\<close>).\<close>

fun fills_buffer :: "sys_event \<Rightarrow> bool" where
  "fills_buffer (Read d x y) = (length x \<ge> buffer_capacity)"
| "fills_buffer e = False"

definition orderly ::
  "('t, 'cb) request_fun \<Rightarrow> ('t, 'cb) reply_fun \<Rightarrow> bool \<Rightarrow> (string \<Rightarrow> string) \<Rightarrow> (string \<Rightarrow> string)
     \<Rightarrow> ('t, 'cb) sys \<Rightarrow> ('t, 'cb) sys res \<Rightarrow> bool" where
  "orderly pr rp acks f g s r = 
     (\<exists>e. sys_ok e s \<and> \<not> overtakes e s \<and> \<not> fills_buffer e \<and> r = sys_exec pr rp acks f g e s)"

lemma all_directions: "(\<forall>d. P d) \<longleftrightarrow> P Requests \<and> P Responses"
  by (metis direction.exhaust)

lemma stream_set [simp]: "stream d (set_stream d' x s) = (if d = d' then x else stream d s)"
  by (cases d; cases d') (simp_all add: stream_def set_stream_def)

lemma set_stream_fields [simp]:
  "sys_conn (set_stream d x s) = sys_conn s" "stream d (s\<lparr>sys_conn := c\<rparr>) = stream d s"
  "seen d' (set_stream d x s) = seen d' s" "seen d (s\<lparr>sys_conn := c\<rparr>) = seen d s"
  "sys_conn (set_seen d n s) = sys_conn s" "stream d (set_seen d' n s) = stream d s"
  by (cases d; cases d'; simp add: set_stream_def stream_def seen_def set_seen_def)+

lemma seen_set [simp]: "seen d (set_seen d' n s) = (if d = d' then n else seen d s)"
  by (cases d; cases d') (simp_all add: seen_def set_seen_def)

lemma opposite_simps [simp]: "opposite d \<noteq> d" "d \<noteq> opposite d" "opposite (opposite d) = d"
  by (cases d; simp)+

lemma all_opposite: "(\<forall>d'. P d') \<longleftrightarrow> P d \<and> P (opposite d)"
  by (cases d) (auto simp: all_directions)

subsection \<open>A packet that has arrived in part\<close>

text \<open>A proper prefix of a packet is only kept in the parser.\<close>

lemma parse_prefix:
  assumes "plain s" and "wire s = u @ w" and "u \<noteq> []" and "w \<noteq> []"
  obtains p where "parse empty_packet u = Inr (p, length u)" and "active p" and "0 < length u"
proof (cases "parse empty_packet u")
  case (Inl e)
  with parse_append_error [OF Inl assms(3), of w] parse_wire_plain [OF assms(1), of "[]"] assms(2)
  show ?thesis by simp
next
  case (Inr r)
  obtain p n where r: "parse empty_packet u = Inr (p, n)" using Inr by (cases r) simp
  have whole: "parse empty_packet (u @ w) = Inr (data_packet s, length (u @ w))"
    using parse_wire_plain [OF assms(1), of "[]"] assms(2) by simp
  have "n > 0" using parse_outcome [OF r assms(3), of w] whole assms(3) by auto
  with parse_outcome [OF r assms(3), of w] consider "active p" | "m_state p = St_complete" by blast
  then show ?thesis
  proof cases
    case 1
    with that parse_append_active(2) [OF r 1] r assms(3) show ?thesis by simp
  next
    case 2
    with parse_append_complete [OF r] \<open>n > 0\<close> whole parse_bounds(1) [OF r] assms(4)
    show ?thesis by (simp add: is_complete_def empty_packet_def)
  qed
qed

definition prefix_packet :: "string \<Rightarrow> gdb_packet" where
  "prefix_packet u =
     (if u = [] then empty_packet
      else case parse empty_packet u of Inl e \<Rightarrow> empty_packet | Inr (p, n) \<Rightarrow> p)"

definition partly :: "direction \<Rightarrow> string \<Rightarrow> ('t, 'cb) connection \<Rightarrow> ('t, 'cb) connection" where
  "partly d u c = upd_channel d (\<lambda>ch. ch\<lparr>m_packet := prefix_packet u\<rparr>) c"

lemma reset_ready: "ready_for_packet d c \<Longrightarrow> upd_channel d (\<lambda>ch. ch\<lparr>m_packet := empty_packet\<rparr>) c = c"
  by (cases d; cases c; cases "get_channel d c") (simp_all add: upd_channel_def get_channel_def)

lemma prefix_packet_Nil [simp]: "prefix_packet [] = empty_packet"
  by (simp add: prefix_packet_def)

lemma partly_self: "m_packet (get_channel d c) = prefix_packet u \<Longrightarrow> partly d u c = c"
  by (cases d; cases c; cases "get_channel d c") (simp_all add: partly_def upd_channel_def get_channel_def)

lemma partly_channel [simp]:
  "get_channel d' (partly d u c)
     = (if d = d' then (get_channel d c)\<lparr>m_packet := prefix_packet u\<rparr> else get_channel d' c)"
  "m_target (partly d u c) = m_target c" "next_id (partly d u c) = next_id c"
  "partly d v (partly d u c) = partly d v c"
  by (simp_all add: partly_def)

lemma process_partly:
  assumes "ready_for_packet d c" and "plain s" and "wire s = u @ w" and "u \<noteq> []" and "w \<noteq> []"
  shows "process_loop pr rp d u c = Inr (partly d u c)"
proof -
  from parse_prefix [OF assms(2-5)] obtain p where p: "parse empty_packet u = Inr (p, length u)"
    "active p" "0 < length u" .
  then have "\<not> is_complete p" by (auto simp: active_def is_complete_def)
  with p assms(1,4) show ?thesis
    by (simp add: process_loop.simps [of pr rp d u] process_packet_def partly_def prefix_packet_def)
qed

text \<open>Further bytes of a packet of which \<open>u\<close> has been read.\<close>

lemma process_rest:
  assumes "m_packet (get_channel d c) = prefix_packet u" and "plain s" and "wire s = u @ x @ y" and "x \<noteq> []"
  shows "process_loop pr rp d x c
    = (if y = [] then process_loop pr rp d (wire s) (partly d [] c) else Inr (partly d (u @ x) c))"
proof -
  let ?c = "partly d [] c"
  have c: "partly d u ?c = c" using partly_self [OF assms(1)] by simp
  have r: "ready_for_packet d ?c" by simp
  have "process_loop pr rp d x c = process_loop pr rp d (u @ x) ?c"
  proof (cases "u = []")
    case True
    then show ?thesis using c by simp
  next
    case False
    with assms c show ?thesis
      using process_partly [OF r assms(2), of u "x @ y"] process_loop_append [of u x pr rp d ?c] by simp
  qed
  then show ?thesis
    using assms process_partly [OF r assms(2), of "u @ x" y] by (cases "y = []") simp_all
qed

lemma parse_raw:
  assumes "data_pkt p"
  shows "\<exists>p' n. parse empty_packet (raw_data p) = Inr (p', n) \<and> pkt_type p' = Pt_dat \<and> pkt_data p' = pkt_data p"
proof -
  from data_pktE [OF assms] obtain s c1 c2
    where m: "m_data p = CHR ''$'' # s @ [CHR ''#'', c1, c2]" and s: "plain s" "pkt_data p = s"
      "raw_data p = m_data p" .
  let ?p = "\<lparr>m_data = ''$'', m_state = St_data, m_csum = 0\<rparr>"
  let ?q = "\<lparr>m_data = CHR ''$'' # s @ [CHR ''#'', c1, c2], m_state = St_complete, m_csum = csum8 s\<rparr>"
  have a: "active ?p" by (simp add: active_def)
  have "parse empty_packet (raw_data p) = parse_loop ?p (s @ [CHR ''#'', c1, c2]) 1"
    by (simp add: s(3) m parse_def is_invalid_def empty_packet_def packet_start_def Let_def)
  also have "\<dots> = parse_loop (?p\<lparr>m_data := CHR ''$'' # s, m_csum := csum8 s\<rparr>) [CHR ''#'', c1, c2] (1 + length s)"
    using s(1) by (simp add: parse_loop_append [OF a] parse_loop_plain)
  also have "\<dots> = Inr (?q, 4 + length s)"
    using s(1) parse_loop_hash [of "?p\<lparr>m_data := CHR ''$'' # s, m_csum := csum8 s\<rparr>" c1 c2 "[]" "1 + length s"]
    by simp
  finally show ?thesis using s(2) by (auto simp: pkt_type_def pkt_data_def)
qed

lemma peer_bytes_data:
  "data_pkt p \<Longrightarrow> remote_bytes acks f (raw_data p) = (if acks then ''+'' else []) @ wire (f (pkt_data p))"
  "data_pkt p \<Longrightarrow> client_bytes g (raw_data p) = g (pkt_data p)"
  using parse_raw [of p] by (auto simp: remote_bytes_def client_bytes_def)

lemma peer_bytes_ack [simp]: "peer_bytes acks f g d ''+'' = []"
  by (cases d) (simp_all add: peer_bytes_def remote_bytes_def client_bytes_def)

subsection \<open>Connections that wait\<close>

definition write_key :: "'cb transfer \<Rightarrow> nat \<times> nat" where
  "write_key tr = (tr_id tr, length (raw_data (tr_pkt tr)))"

definition ack_transfer :: "nat \<Rightarrow> 'cb transfer" where
  "ack_transfer i = \<lparr>tr_id = i, tr_pkt = ack_pkt, is_internal = False, on_response_cb = None\<rparr>"

lemma write_key_ack [simp]: "write_key (ack_transfer i) = (i, 1)"
  by (simp add: write_key_def ack_transfer_def)

lemma ack_transfer_fields [simp]: "tr_id (ack_transfer i) = i" "tr_pkt (ack_transfer i) = ack_pkt"
  by (simp_all add: ack_transfer_def)

text \<open>
  The requests channel holds \<open>reqs\<close>, at most one request that awaits its reply, and in front of it
  acknowledgements of the client that are being written; the responses channel holds what is being
  written.
\<close>

definition requests_at :: "'cb transfer list \<Rightarrow> 'cb channel \<Rightarrow> bool" where
  "requests_at reqs ch =
     (length reqs \<le> 1 \<and> (\<forall>tr\<in>set reqs. pkt_type (tr_pkt tr) = Pt_dat)
      \<and> (\<exists>ids ws. m_transfers ch = map ack_transfer ids @ reqs \<and> ch_writes ch = map (\<lambda>i. (i, 1)) ids @ ws
          \<and> (ws = map write_key reqs \<or> ids = [] \<and> ws = [])))"

definition conn_at ::
  "'t \<Rightarrow> 'cb transfer list \<Rightarrow> string list \<Rightarrow> string list \<Rightarrow> string \<Rightarrow> string \<Rightarrow> ('t, 'cb) connection \<Rightarrow> bool" where
  "conn_at t reqs sent_q sent_r u1 u2 c =
     (m_target c = Some t \<and> requests_at reqs (get_channel Requests c)
      \<and> ch_writes (get_channel Responses c) = map write_key (m_transfers (get_channel Responses c))
      \<and> ch_sent (get_channel Requests c) = sent_q \<and> ch_sent (get_channel Responses c) = sent_r
      \<and> m_packet (get_channel Requests c) = prefix_packet u1
      \<and> m_packet (get_channel Responses c) = prefix_packet u2)"

lemma requests_at_cong [simp]:
  "requests_at reqs (ch\<lparr>m_packet := p\<rparr>) = requests_at reqs ch"
  "requests_at reqs (ch\<lparr>ch_reading := b\<rparr>) = requests_at reqs ch"
  "requests_at reqs (ch\<lparr>ch_sent := x\<rparr>) = requests_at reqs ch"
  by (simp_all add: requests_at_def)

lemma conn_at_reading [simp]:
  "conn_at t reqs sq sr u1 u2 (upd_channel d (\<lambda>ch. ch\<lparr>ch_reading := b\<rparr>) c) = conn_at t reqs sq sr u1 u2 c"
  "conn_at t reqs sq sr u1 u2 (start_read d c) = conn_at t reqs sq sr u1 u2 c"
  by (cases d; simp add: conn_at_def start_read_def)+

lemma write_done_first:
  assumes "m_transfers (get_channel d c) = tr # trs" and "ch_writes (get_channel d c) = write_key tr # ws"
    and "event_ok (Write_Done d False n) c"
  shows "conn_step pr rp (Write_Done d False n) c = Inr (upd_channel d (\<lambda>ch. ch\<lparr>ch_writes := ws,
      m_transfers := (if pkt_type (tr_pkt tr) \<noteq> Pt_dat \<or> d = Responses then trs else tr # trs)\<rparr>) c)"
proof -
  have "upd_channel d (\<lambda>ch. ch\<lparr>ch_writes := ws\<rparr>) c
      = upd_channel d (\<lambda>ch. ch\<lparr>ch_writes := ws, m_transfers := tr # trs\<rparr>) c"
    using assms(1) by (cases d; cases c; cases "get_channel d c") (simp_all add: upd_channel_def get_channel_def)
  moreover have "upd_channel d (\<lambda>ch. ch\<lparr>ch_writes := ws, m_transfers := tl (m_transfers ch)\<rparr>) c
      = upd_channel d (\<lambda>ch. ch\<lparr>ch_writes := ws, m_transfers := trs\<rparr>) c"
    using assms(1) by (cases d; cases c; cases "get_channel d c") (simp_all add: upd_channel_def get_channel_def)
  ultimately show ?thesis
    using assms by (simp add: write_done_def write_key_def)
qed

text \<open>Any completion of a write leaves such a connection as it is, but for the write.\<close>

lemma conn_at_written:
  assumes "conn_at t reqs sq sr u1 u2 c" and "event_ok (Write_Done d False n) c"
  shows "\<exists>c'. conn_step pr rp (Write_Done d False n) c = Inr c' \<and> conn_at t reqs sq sr u1 u2 c'
    \<and> ch_writes (get_channel d c') = tl (ch_writes (get_channel d c)) \<and> ch_writes (get_channel d c) \<noteq> []
    \<and> get_channel (opposite d) c' = get_channel (opposite d) c
    \<and> ch_reading (get_channel d c') = ch_reading (get_channel d c)"
proof (cases d)
  case Responses
  then obtain tr trs where q: "m_transfers (get_channel Responses c) = tr # trs"
    "ch_writes (get_channel Responses c) = write_key tr # map write_key trs"
    using assms by (cases "m_transfers (get_channel Responses c)") (auto simp: conn_at_def)
  from write_done_first [OF q assms(2) [unfolded Responses], of pr rp] assms(1) q show ?thesis
    unfolding Responses by (auto simp: conn_at_def)
next
  case Requests
  from assms(1) obtain ids ws where r: "length reqs \<le> 1" "\<forall>tr\<in>set reqs. pkt_type (tr_pkt tr) = Pt_dat"
    "m_transfers (get_channel Requests c) = map ack_transfer ids @ reqs"
    "ch_writes (get_channel Requests c) = map (\<lambda>i. (i, 1)) ids @ ws"
    "ws = map write_key reqs \<or> ids = [] \<and> ws = []"
    by (auto simp: conn_at_def requests_at_def)
  show ?thesis
  proof (cases ids)
    case Nil
    then have "ws \<noteq> []" using assms(2) r(4) Requests by (cases ws) simp_all
    then obtain req where req: "reqs = [req]" "ws = [write_key req]"
      using r(1,5) by (cases reqs) auto
    have q: "m_transfers (get_channel Requests c) = req # []" "ch_writes (get_channel Requests c) = write_key req # []"
      using r(3,4) Nil req by simp_all
    from write_done_first [OF q assms(2) [unfolded Requests], of pr rp] assms(1) q r(2) req show ?thesis
      unfolding Requests by (auto simp: conn_at_def requests_at_def)
  next
    case (Cons i ids2)
    then have ws: "ws = map write_key reqs" using r(5) by simp
    have q: "m_transfers (get_channel Requests c) = ack_transfer i # map ack_transfer ids2 @ reqs"
      "ch_writes (get_channel Requests c) = write_key (ack_transfer i :: 'b transfer) # map (\<lambda>i. (i, 1)) ids2 @ ws"
      using r(3,4) Cons by simp_all
    have "requests_at reqs (get_channel Requests c
        \<lparr>ch_writes := map (\<lambda>i. (i, 1)) ids2 @ ws, m_transfers := map ack_transfer ids2 @ reqs\<rparr>)"
      unfolding requests_at_def using r(1,2) ws by auto
    with write_done_first [OF q assms(2) [unfolded Requests], of pr rp] assms(1) q(2) show ?thesis
      unfolding Requests by (auto simp: conn_at_def)
  qed
qed

subsection \<open>Stages\<close>

text \<open>
  A stage of the closed system: the target's state and its outstanding request, what the client has
  been sent, the packet each peer has still to get (\<open>qc\<close>, \<open>qr\<close>; acknowledgements may be in front of
  it), and of each stream what has been parsed and what is on its way. It does not fix which writes
  have completed, or which acknowledgements have arrived.
\<close>

definition stage ::
  "'t \<Rightarrow> 'cb transfer list \<Rightarrow> string list \<Rightarrow> string list \<Rightarrow> string list \<Rightarrow> string \<Rightarrow> string \<Rightarrow> string \<Rightarrow> string
     \<Rightarrow> ('t, 'cb) sys \<Rightarrow> bool" where
  "stage t reqs out qc qr u1 w1 u2 w2 s =
     ((\<exists>sq. conn_at t reqs sq out u1 u2 (sys_conn s)) \<and> (\<forall>d. ch_reading (get_channel d (sys_conn s)))
      \<and> from_client s = w1 \<and> from_remote s = w2
      \<and> (\<forall>d. seen d s \<le> length (ch_sent (get_channel d (sys_conn s))))
      \<and> (\<exists>k. unseen Responses s = replicate k ''+'' @ qc) \<and> (\<exists>k. unseen Requests s = replicate k ''+'' @ qr))"

lemma stage_written:
  assumes "stage t reqs out qc qr u1 w1 u2 w2 s" and "event_ok (Write_Done d False n) (sys_conn s)"
  shows "\<exists>c'. conn_step pr rp (Write_Done d False n) (sys_conn s) = Inr c'
    \<and> stage t reqs out qc qr u1 w1 u2 w2 (s\<lparr>sys_conn := c'\<rparr>)
    \<and> ch_writes (get_channel d c') = tl (ch_writes (get_channel d (sys_conn s)))
    \<and> ch_writes (get_channel d (sys_conn s)) \<noteq> []
    \<and> ch_writes (get_channel (opposite d) c') = ch_writes (get_channel (opposite d) (sys_conn s))
    \<and> (\<forall>d. ch_sent (get_channel d c') = ch_sent (get_channel d (sys_conn s)))"
proof -
  from assms(1) obtain sq where c: "conn_at t reqs sq out u1 u2 (sys_conn s)" by (auto simp: stage_def)
  from conn_at_written [where pr = pr and rp = rp, OF this assms(2)] obtain c'
    where c': "conn_step pr rp (Write_Done d False n) (sys_conn s) = Inr c'" "conn_at t reqs sq out u1 u2 c'"
      "ch_writes (get_channel d c') = tl (ch_writes (get_channel d (sys_conn s)))"
      "ch_writes (get_channel d (sys_conn s)) \<noteq> []"
      "get_channel (opposite d) c' = get_channel (opposite d) (sys_conn s)"
      "ch_reading (get_channel d c') = ch_reading (get_channel d (sys_conn s))" by blast
  have sent: "\<forall>d. ch_sent (get_channel d c') = ch_sent (get_channel d (sys_conn s))"
    using c c'(2) by (simp add: conn_at_def all_directions)
  have "\<forall>d. ch_reading (get_channel d c')"
    using assms(1) c'(5,6) unfolding all_opposite [of _ d] by (simp add: stage_def)
  then have "stage t reqs out qc qr u1 w1 u2 w2 (s\<lparr>sys_conn := c'\<rparr>)"
    using assms(1) c'(2) sent by (auto simp: stage_def unseen_def)
  with c' sent show ?thesis by (intro exI [of _ c']) simp
qed

text \<open>What a receiver gets next is an acknowledgement, which it does not react to, or the packet it waits for.\<close>

definition received :: "direction \<Rightarrow> string \<Rightarrow> ('t, 'cb) sys \<Rightarrow> ('t, 'cb) sys" where
  "received d x s = set_seen d (Suc (seen d s)) (set_stream (opposite d) (stream (opposite d) s @ x) s)"

lemma received_unseen:
  "unseen d (received d x s) = tl (unseen d s)" "unseen (opposite d) (received d x s) = unseen (opposite d) s"
  by (simp_all add: unseen_def received_def drop_Suc tl_drop)

lemma received_fields [simp]:
  "sys_conn (received d x s) = sys_conn s"
  "seen d' (received d x s) = (if d = d' then Suc (seen d s) else seen d' s)"
  by (simp_all add: received_def)

lemma received_streams [simp]:
  "from_client (received Requests x s) = from_client s" "from_remote (received Requests x s) = from_remote s @ x"
  "from_client (received Responses x s) = from_client s @ x" "from_remote (received Responses x s) = from_remote s"
  by (simp_all add: received_def set_seen_def set_stream_def stream_def)

lemma stage_received:
  assumes "stage t reqs out qc qr u1 w1 u2 w2 s" and "unseen d s \<noteq> []"
  shows "(hd (unseen d s) = ''+'' \<and> stage t reqs out qc qr u1 w1 u2 w2 (received d [] s))
    \<or> (case d of
         Responses \<Rightarrow> hd (unseen d s) = hd qc \<and> qc \<noteq> [] \<and> (\<forall>x. stage t reqs out (tl qc) qr u1 (w1 @ x) u2 w2 (received d x s))
       | Requests \<Rightarrow> hd (unseen d s) = hd qr \<and> qr \<noteq> [] \<and> (\<forall>x. stage t reqs out qc (tl qr) u1 w1 u2 (w2 @ x) (received d x s)))"
proof -
  have len: "Suc (seen d s) \<le> length (ch_sent (get_channel d (sys_conn s)))"
    using assms(2) by (simp add: unseen_def)
  then have bound: "\<forall>d'. seen d' (received d x s) \<le> length (ch_sent (get_channel d' (sys_conn s)))" for x
    using assms(1) unfolding all_opposite [of _ d] by (simp add: stage_def)
  obtain kc kr where k: "unseen Responses s = replicate kc ''+'' @ qc" "unseen Requests s = replicate kr ''+'' @ qr"
    using assms(1) by (auto simp: stage_def)
  have un: "unseen Requests (received Requests x s) = tl (unseen Requests s)"
    "unseen Responses (received Requests x s) = unseen Responses s"
    "unseen Responses (received Responses x s) = tl (unseen Responses s)"
    "unseen Requests (received Responses x s) = unseen Requests s" for x
    using received_unseen [of Requests x s] received_unseen [of Responses x s] by simp_all
  show ?thesis
  proof (cases d)
    case Requests
    show ?thesis
    proof (cases kr)
      case 0
      with k(2) assms(2) Requests have q: "hd (unseen Requests s) = hd qr" "qr \<noteq> []" "unseen Requests s = qr" by auto
      have "stage t reqs out qc (tl qr) u1 w1 u2 (w2 @ x) (received Requests x s)" for x
        using assms(1) bound [of x] k(1) Requests unfolding stage_def un q(3)
        by (auto intro: exI [of _ 0])
      with q show ?thesis unfolding Requests by simp
    next
      case (Suc n)
      have "stage t reqs out qc qr u1 w1 u2 w2 (received Requests [] s)"
        using assms(1) bound [of "[]"] k Suc Requests unfolding stage_def un by auto
      with k(2) Suc show ?thesis unfolding Requests by simp
    qed
  next
    case Responses
    show ?thesis
    proof (cases kc)
      case 0
      with k(1) assms(2) Responses have q: "hd (unseen Responses s) = hd qc" "qc \<noteq> []" "unseen Responses s = qc" by auto
      have "stage t reqs out (tl qc) qr u1 (w1 @ x) u2 w2 (received Responses x s)" for x
        using assms(1) bound [of x] k(2) Responses unfolding stage_def un q(3)
        by (auto intro: exI [of _ 0])
      with q show ?thesis unfolding Responses by simp
    next
      case (Suc n)
      have "stage t reqs out qc qr u1 w1 u2 w2 (received Responses [] s)"
        using assms(1) bound [of "[]"] k Suc Responses unfolding stage_def un by auto
      with k(1) Suc show ?thesis unfolding Responses by simp
    qed
  qed
qed

definition pending :: "('t, 'cb) sys \<Rightarrow> nat" where
  "pending s = length (ch_writes (get_channel Requests (sys_conn s)))
     + length (ch_writes (get_channel Responses (sys_conn s)))
     + length (unseen Requests s) + length (unseen Responses s)"

text \<open>
  The rule of progress: only reads, the arrival of the packets waited for, and coming to rest need to
  be looked at. Everything else leaves the stage as it is, and there is only so much of it.
\<close>

lemma stage_inevitable:
  fixes s :: "('t, 'cb) sys"
  assumes qc: "qc = [] \<or> qc = [q] \<and> (\<forall>s. stage t reqs out [] qr u1 (w1 @ client_bytes g q) u2 w2 s
        \<longrightarrow> inevitable (orderly pr rp acks f g) P s)"
    and qr: "qr = [] \<or> qr = [r] \<and> (\<forall>s. stage t reqs out qc [] u1 w1 u2 (w2 @ remote_bytes acks f r) s
        \<longrightarrow> inevitable (orderly pr rp acks f g) P s)"
    and read: "\<And>s d x y. \<lbrakk>stage t reqs out qc qr u1 w1 u2 w2 s; stream d s = x @ y; x \<noteq> []; length x < buffer_capacity;
          d = Responses \<longrightarrow> ch_writes (get_channel Requests (sys_conn s)) = []\<rbrakk> \<Longrightarrow>
        \<exists>c'. conn_step pr rp (Read_Done d False x) (sys_conn s) = Inr c'
          \<and> inevitable (orderly pr rp acks f g) P (set_stream d y (s\<lparr>sys_conn := c'\<rparr>))"
    and rest: "\<And>s. \<lbrakk>stage t reqs out qc qr u1 w1 u2 w2 s; pending s = 0; w1 = []; w2 = []\<rbrakk> \<Longrightarrow> P s"
  shows "stage t reqs out qc qr u1 w1 u2 w2 s \<Longrightarrow> inevitable (orderly pr rp acks f g) P s"
proof (induction "pending s" arbitrary: s rule: less_induct)
  case less
  let ?stage = "stage t reqs out qc qr u1 w1 u2 w2" and ?step = "orderly pr rp acks f g"
  note st = less.prems
  have reading: "\<forall>d. ch_reading (get_channel d (sys_conn s))" using st by (simp add: stage_def)
  have step: "\<exists>s'. sys_exec pr rp acks f g e s = Inr s' \<and> inevitable ?step P s'"
    if e: "sys_ok e s" "\<not> overtakes e s" "\<not> fills_buffer e" for e
  proof (cases e)
    case (Read d x y)
    with e read [OF st, of d x y] show ?thesis by auto
  next
    case (Written d n)
    with e have "event_ok (Write_Done d False n) (sys_conn s)" by simp
    from stage_written [where pr = pr and rp = rp, OF st this] obtain c'
      where c': "conn_step pr rp (Write_Done d False n) (sys_conn s) = Inr c'" "?stage (s\<lparr>sys_conn := c'\<rparr>)"
        "ch_writes (get_channel d c') = tl (ch_writes (get_channel d (sys_conn s)))"
        "ch_writes (get_channel d (sys_conn s)) \<noteq> []"
        "ch_writes (get_channel (opposite d) c') = ch_writes (get_channel (opposite d) (sys_conn s))"
        "\<forall>d. ch_sent (get_channel d c') = ch_sent (get_channel d (sys_conn s))" by blast
    have "length (ch_writes (get_channel d c')) < length (ch_writes (get_channel d (sys_conn s)))"
      using c'(3,4) by simp
    then have "pending (s\<lparr>sys_conn := c'\<rparr>) < pending s"
      using c'(5,6) by (cases d) (simp_all add: pending_def unseen_def)
    from less.hyps [OF this c'(2)] c'(1) Written show ?thesis by (simp del: conn_step.simps)
  next
    case (Received d)
    let ?x = "peer_bytes acks f g d (hd (unseen d s))"
    have ex: "sys_exec pr rp acks f g e s = Inr (received d ?x s)" using Received by (simp add: received_def)
    have un: "unseen d s \<noteq> []" using e Received by simp
    from stage_received [OF st un] show ?thesis
    proof
      assume a: "hd (unseen d s) = ''+'' \<and> ?stage (received d [] s)"
      then have x: "?x = []" by simp
      have "length (unseen d (received d [] s)) < length (unseen d s)"
        using un by (simp add: received_unseen)
      then have "pending (received d [] s) < pending s"
        using received_unseen(2) [of d "[]" s] by (cases d) (simp_all add: pending_def)
      from less.hyps [OF this] a show ?thesis unfolding ex x by simp
    next
      assume a: "case d of
         Responses \<Rightarrow> hd (unseen d s) = hd qc \<and> qc \<noteq> [] \<and> (\<forall>x. stage t reqs out (tl qc) qr u1 (w1 @ x) u2 w2 (received d x s))
       | Requests \<Rightarrow> hd (unseen d s) = hd qr \<and> qr \<noteq> [] \<and> (\<forall>x. stage t reqs out qc (tl qr) u1 w1 u2 (w2 @ x) (received d x s))"
      then show ?thesis unfolding ex using qc qr by (cases d) (auto simp: peer_bytes_def)
    qed
  qed
  show ?case
  proof (cases "\<exists>e. sys_ok e s \<and> \<not> overtakes e s \<and> \<not> fills_buffer e")
    case True
    then show ?thesis using step by (intro inevitable.later) (auto simp: orderly_def)
  next
    case False
    have "ch_writes (get_channel d (sys_conn s)) = []" for d
    proof (rule ccontr)
      assume "ch_writes (get_channel d (sys_conn s)) \<noteq> []"
      then obtain i n ws where "ch_writes (get_channel d (sys_conn s)) = (i, n) # ws"
        by (cases "ch_writes (get_channel d (sys_conn s))") auto
      then have "sys_ok (Written d n) s" by simp
      with False show False by fastforce
    qed
    moreover have "unseen d s = []" for d
      using False [unfolded not_ex, rule_format, of "Received d"] by simp
    moreover have "stream d s = []" for d
    proof (rule ccontr)
      assume "stream d s \<noteq> []"
      then obtain b y where "stream d s = [b] @ y" by (cases "stream d s") auto
      with False [unfolded not_ex, rule_format, of "Read d [b] y"] reading calculation(1) show False
        by (simp add: buffer_capacity_def)
    qed
    note e = this
    ultimately have "pending s = 0" "w1 = []" "w2 = []"
      using e [of Requests] e [of Responses] st by (simp_all add: pending_def stream_def stage_def)
    with rest [OF st] show ?thesis by (intro inevitable.now) simp
  qed
qed

text \<open>A read: the bytes go through the parser, what is handled may be sent, and the next read starts.\<close>

abbreviation unread :: "direction \<Rightarrow> ('t, 'cb) connection \<Rightarrow> ('t, 'cb) connection" where
  "unread d c \<equiv> upd_channel d (\<lambda>ch. ch\<lparr>ch_reading := False\<rparr>) c"

lemma stage_read:
  assumes st: "stage t reqs out qc qr u1 w1 u2 w2 s" and x: "stream d s = x @ y" "x \<noteq> []" "length x < buffer_capacity"
    and p: "process_loop pr rp d x (unread d (sys_conn s)) = Inr c'"
    and c': "conn_at t' reqs' (ch_sent (get_channel Requests (sys_conn s)) @ nq) (out @ nr) v1 v2 c'"
    and q: "qc @ nr = replicate kc ''+'' @ qc'" "qr @ nq = replicate kr ''+'' @ qr'"
  shows "conn_step pr rp (Read_Done d False x) (sys_conn s) = Inr (start_read d c')
    \<and> stage t' reqs' (out @ nr) qc' qr' v1 (if d = Requests then y else w1) v2 (if d = Requests then w2 else y)
        (set_stream d y (s\<lparr>sys_conn := start_read d c'\<rparr>))"
proof -
  have reading: "\<forall>d'. ch_reading (get_channel d' (start_read d c'))"
    using st process_loop_reading [OF p] by (auto simp: stage_def start_read_def)
  obtain mc mr where m: "unseen Responses s = replicate mc ''+'' @ qc" "unseen Requests s = replicate mr ''+'' @ qr"
    using st by (auto simp: stage_def)
  have out: "ch_sent (get_channel Responses (sys_conn s)) = out" using st by (auto simp: stage_def conn_at_def)
  have len: "seen d' s \<le> length (ch_sent (get_channel d' (sys_conn s)))" for d'
    using st by (simp add: stage_def)
  have sent: "ch_sent (get_channel Requests (start_read d c')) = ch_sent (get_channel Requests (sys_conn s)) @ nq"
    "ch_sent (get_channel Responses (start_read d c')) = ch_sent (get_channel Responses (sys_conn s)) @ nr"
    using c' out by (cases d; simp add: conn_at_def start_read_def)+
  let ?s = "set_stream d y (s\<lparr>sys_conn := start_read d c'\<rparr>)"
  have un: "unseen Responses ?s = replicate (mc + kc) ''+'' @ qc'" "unseen Requests ?s = replicate (mr + kr) ''+'' @ qr'"
    using len [of Requests] len [of Responses] m q by (simp_all add: unseen_def sent replicate_add)
  have le: "\<forall>d'. seen d' ?s \<le> length (ch_sent (get_channel d' (sys_conn ?s)))"
    using len [of Requests] len [of Responses] by (simp add: all_directions sent)
  have str: "from_client ?s = (if d = Requests then y else w1)" "from_remote ?s = (if d = Requests then w2 else y)"
    using st by (cases d; simp add: stage_def set_stream_def)+
  have "stage t' reqs' (out @ nr) qc' qr' v1 (if d = Requests then y else w1) v2 (if d = Requests then w2 else y) ?s"
    unfolding stage_def un str using reading c' le by auto
  then show ?thesis using p x(2,3) by (simp add: read_done_def process_data_def)
qed

subsection \<open>What the connection does with a packet\<close>

fun call_cb :: "'cb conn_call \<Rightarrow> 'cb option" where
  "call_cb (Internal_Request p cb) = cb"
| "call_cb (Client_Request p cb) = cb"
| "call_cb (Internal_Response p) = None"

fun call_internal :: "'cb conn_call \<Rightarrow> bool" where
  "call_internal (Client_Request p cb) = False"
| "call_internal call = True"

definition call_reqs :: "nat \<Rightarrow> 'cb conn_call \<Rightarrow> 'cb transfer list" where
  "call_reqs i call =
     (if call_dir call = Requests
      then [\<lparr>tr_id = i, tr_pkt = call_packet call, is_internal = call_internal call, on_response_cb = call_cb call\<rparr>]
      else [])"

lemma apply_calls_one [simp]: "apply_calls [call] c = apply_call call c"
  by (simp add: apply_calls_def)

lemma apply_call_target [simp]: "m_target (apply_call call c) = m_target c"
  by (cases call) simp_all

lemma sent_by_one [simp]:
  "sent_by d [call] = (if call_dir call = d then [call_packet call] else [])"
  by (simp add: sent_by_def)

lemma conn_at_call:
  assumes "conn_at t [] sq sr u1 u2 c" and "call_ok call"
  shows "conn_at t (call_reqs (next_id c) call) (sq @ map raw_data (sent_by Requests [call]))
    (sr @ map raw_data (sent_by Responses [call])) u1 u2 (apply_call call c)"
proof -
  have q: "pkt_type (call_packet call) = Pt_dat" using assms(2) by (simp add: call_ok_def data_pkt_def)
  obtain ids where c: "m_transfers (get_channel Requests c) = map ack_transfer ids"
    "ch_writes (get_channel Requests c) = map (\<lambda>i. (i, 1)) ids"
    using assms(1) by (auto simp: conn_at_def requests_at_def)
  have r: "requests_at [\<lparr>tr_id = i, tr_pkt = p, is_internal = b, on_response_cb = cb\<rparr>]
      (ch\<lparr>m_transfers := map ack_transfer ids @ [\<lparr>tr_id = i, tr_pkt = p, is_internal = b, on_response_cb = cb\<rparr>],
        ch_writes := map (\<lambda>i. (i, 1)) ids @ [(i, length (raw_data p))]\<rparr>)"
    if "pkt_type p = Pt_dat" for ch :: "'b channel" and i p b cb
    using that by (auto simp: requests_at_def write_key_def)
  show ?thesis
    using assms(1) q c r [unfolded One_nat_def]
    by (cases call) (auto simp: conn_at_def call_reqs_def start_write_channel write_key_def Let_def)
qed

text \<open>
  The client's packet makes the target push one packet, or is passed on, which has the effect of the
  call \<open>Client_Request\<close> without a callback.
\<close>

definition handled_as :: "('t, 'cb) request_fun \<Rightarrow> 't \<Rightarrow> string \<Rightarrow> 't \<Rightarrow> 'cb conn_call \<Rightarrow> bool" where
  "handled_as pr t x t' call =
     (pr t (data_packet x) = Inr (t', [call], True)
      \<or> call = Client_Request (data_packet x) None \<and> pr t (data_packet x) = Inr (t', [], False))"

text \<open>The reply to what was pushed or passed on makes the target push one packet, or is passed on.\<close>

fun replied_as :: "('t, 'cb) reply_fun \<Rightarrow> 'cb conn_call \<Rightarrow> string \<Rightarrow> 't \<Rightarrow> 't \<Rightarrow> 'cb conn_call \<Rightarrow> bool" where
  "replied_as rp (Internal_Request p (Some cb)) x t t' call = (rp cb p (data_packet x) t = Inr (t', [call]))"
| "replied_as rp (Client_Request p None) x t t' call = (t' = t \<and> call = Internal_Response (data_packet x))"
| "replied_as rp _ x t t' call = False"

lemma apply_call_packet:
  "upd_channel d (\<lambda>ch. ch\<lparr>m_packet := p\<rparr>) (apply_call call c)
     = apply_call call (upd_channel d (\<lambda>ch. ch\<lparr>m_packet := p\<rparr>) c)"
  by (cases call; cases d) (simp_all add: start_write_def upd_channel_def Let_def)

lemma conn_at_partly:
  "conn_at t reqs sq sr u1 u2 c \<Longrightarrow> conn_at t reqs sq sr v u2 (partly Requests v c)"
  "conn_at t reqs sq sr u1 u2 c \<Longrightarrow> conn_at t reqs sq sr u1 v (partly Responses v c)"
  by (simp_all add: conn_at_def)

lemma client_packet:
  assumes "conn_at t [] sq sr u1 u2 c" and "handled_as pr t p t' call" and "call_ok call" and "plain p"
    and "wire p = u1 @ v @ w" and "v \<noteq> []"
  shows "\<exists>c'. process_loop pr rp Requests v c = Inr c'
    \<and> (if w = []
       then \<exists>i. conn_at t' (call_reqs i call) (sq @ map raw_data (sent_by Requests [call]))
              (sr @ map raw_data (sent_by Responses [call])) [] u2 c'
       else conn_at t [] (sq @ []) (sr @ []) (u1 @ v) u2 c')"
proof (cases "w = []")
  case False
  have "m_packet (get_channel Requests c) = prefix_packet u1" using assms(1) by (simp add: conn_at_def)
  from process_rest [OF this assms(4-6)] conn_at_partly(1) [OF assms(1), of "u1 @ v"] False show ?thesis by simp
next
  case True
  let ?c0 = "partly Requests [] c"
  let ?c1 = "upd_channel Requests (\<lambda>ch. ch\<lparr>m_packet := data_packet p\<rparr>) ?c0"
  let ?c2 = "?c1\<lparr>conn_seq := conn_seq ?c1 + 1, m_target := Some t'\<rparr>"
  let ?e = "?c0\<lparr>conn_seq := conn_seq ?c1 + 1, m_target := Some t'\<rparr>"
  have m: "m_packet (get_channel Requests c) = prefix_packet u1" and t: "m_target ?c1 = Some t"
    using assms(1) by (simp_all add: conn_at_def)
  have r: "ready_for_packet Requests ?c0" by simp
  have e: "upd_channel Requests (\<lambda>ch. ch\<lparr>m_packet := empty_packet\<rparr>) ?c2 = ?e"
    by (simp add: partly_def upd_channel_def)
  have "\<exists>c2 h. packet_handler pr rp Requests (data_packet p) ?c1 = Inr (c2, h)
      \<and> (if h then c2 else start_write Requests (data_packet p) False None c2) = apply_call call ?c2"
    using assms(2) unfolding handled_as_def
  proof
    assume p: "pr t (data_packet p) = Inr (t', [call], True)"
    show ?thesis
      by (intro exI [of _ "apply_call call ?c2"] exI [of _ True])
        (use p t in \<open>simp add: packet_handler_def on_request_def Let_def\<close>)
  next
    assume p: "call = Client_Request (data_packet p) None \<and> pr t (data_packet p) = Inr (t', [], False)"
    show ?thesis
      by (intro exI [of _ ?c2] exI [of _ False])
        (use p t in \<open>simp add: packet_handler_def on_request_def apply_calls_def Let_def\<close>)
  qed
  then obtain c2 h where h: "packet_handler pr rp Requests (data_packet p) ?c1 = Inr (c2, h)"
    "(if h then c2 else start_write Requests (data_packet p) False None c2) = apply_call call ?c2" by blast
  have "process_packet pr rp Requests (wire p @ []) ?c0
      = Inr (upd_channel Requests (\<lambda>ch. ch\<lparr>m_packet := empty_packet\<rparr>) (apply_call call ?c2), [])"
    unfolding process_wire [OF r assms(4)] h(1) bind_res_simps prod.case h(2) ..
  then have "process_loop pr rp Requests (wire p) ?c0 = Inr (apply_call call ?e)"
    unfolding apply_call_packet e by (subst process_loop.simps) simp
  then have "process_loop pr rp Requests v c = Inr (apply_call call ?e)"
    using process_rest [OF m assms(4-6), of pr rp] True by simp
  moreover have "conn_at t' [] sq sr [] u2 ?e"
    using conn_at_partly(1) [OF assms(1), of "[]"] by (simp add: conn_at_def)
  from conn_at_call [OF this assms(3)] have "\<exists>i. conn_at t' (call_reqs i call)
      (sq @ map raw_data (sent_by Requests [call])) (sr @ map raw_data (sent_by Responses [call])) [] u2 (apply_call call ?e)"
    by (rule exI)
  ultimately show ?thesis 
    by (intro exI [of _ "apply_call call ?e"]) (simp only: True simp_thms if_True)
qed

lemma client_ack:
  assumes "conn_at t [] sq sr [] u2 c"
  shows "\<exists>c'. process_loop pr rp Requests ''+'' c = Inr c' \<and> conn_at t [] (sq @ [''+'']) (sr @ []) [] u2 c'"
proof -
  have r: "ready_for_packet Requests c" using assms by (simp add: conn_at_def)
  let ?c' = "upd_channel Requests (\<lambda>ch. ch\<lparr>m_packet := empty_packet\<rparr>)
    (start_write Requests ack_pkt False None (upd_channel Requests (\<lambda>ch. ch\<lparr>m_packet := ack_pkt\<rparr>) c))"
  obtain ids where ids: "m_transfers (get_channel Requests c) = map ack_transfer ids"
    "ch_writes (get_channel Requests c) = map (\<lambda>i. (i, 1)) ids"
    using assms by (auto simp: conn_at_def requests_at_def)
  have "requests_at [] (ch\<lparr>m_transfers := map ack_transfer (ids @ [next_id c]),
      ch_writes := map (\<lambda>i. (i, 1)) (ids @ [next_id c])\<rparr>)" for ch :: "'b channel"
    unfolding requests_at_def by (intro conjI exI [of _ "ids @ [next_id c]"] exI [of _ "[]"]) simp_all
  then have "conn_at t [] (sq @ [''+'']) (sr @ []) [] u2 ?c'"
    using assms ids by (simp add: conn_at_def start_write_channel ack_transfer_def)
  with forward_ack [OF r, of pr rp] show ?thesis by blast
qed

lemma tl_call_reqs [simp]: "tl (call_reqs i call) = []"
  by (simp add: call_reqs_def)

lemma conn_at_passed:
  assumes "conn_at t reqs sq sr u1 u2 c" and "pkt_type p \<noteq> Pt_brk"
  shows "conn_at t reqs sq (sr @ [raw_data p]) u1 u2 (start_write Responses p b None c)"
  using assms by (simp add: conn_at_def start_write_channel write_key_def)

lemma apply_call_pop:
  "call_ok call \<Longrightarrow> m_transfers (get_channel Requests c) \<noteq> [] \<Longrightarrow>
     upd_channel Requests (\<lambda>ch. ch\<lparr>m_transfers := tl (m_transfers ch)\<rparr>) (apply_call call c)
       = apply_call call (upd_channel Requests (\<lambda>ch. ch\<lparr>m_transfers := tl (m_transfers ch)\<rparr>) c)"
  using call_ok_not_brk [of call]
  by (cases call) (simp_all add: start_write_def upd_channel_def get_channel_def Let_def)

lemma remote_packet:
  assumes "conn_at t (call_reqs i call) sq sr u1 u2 c" and "ch_writes (get_channel Requests c) = []"
    and "call_dir call = Requests" and "replied_as rp call x t t' call'" and "call_ok call'" and "plain x"
    and "wire x = u2 @ v @ w" and "v \<noteq> []"
  shows "\<exists>c'. process_loop pr rp Responses v c = Inr c'
    \<and> (if w = []
       then \<exists>j. conn_at t' (call_reqs j call') (sq @ map raw_data (sent_by Requests [call']))
              (sr @ map raw_data (sent_by Responses [call'])) u1 [] c'
       else conn_at t (call_reqs i call) (sq @ []) (sr @ []) u1 (u2 @ v) c')"
proof (cases "w = []")
  case False
  have "m_packet (get_channel Responses c) = prefix_packet u2" using assms(1) by (simp add: conn_at_def)
  from process_rest [OF this assms(6-8)] conn_at_partly(2) [OF assms(1), of "u2 @ v"] False show ?thesis by simp
next
  case True
  let ?c0 = "partly Responses [] c" and ?p = "call_packet call"
  let ?req = "\<lparr>tr_id = i, tr_pkt = ?p, is_internal = call_internal call, on_response_cb = call_cb call\<rparr>"
  let ?c1 = "upd_channel Responses (\<lambda>ch. ch\<lparr>m_packet := data_packet x\<rparr>) ?c0"
  let ?c2 = "ack_mode_update ?p (data_packet x) ?c1"
  let ?pop = "upd_channel Requests (\<lambda>ch. ch\<lparr>m_transfers := tl (m_transfers ch)\<rparr>)"
  let ?idle = "upd_channel Responses (\<lambda>ch. ch\<lparr>m_packet := empty_packet\<rparr>)"
  let ?e = "?idle (?pop (?c2\<lparr>m_target := Some t'\<rparr>))"
  have m: "m_packet (get_channel Responses c) = prefix_packet u2" and t: "m_target ?c1 = Some t"
    using assms(1) by (simp_all add: conn_at_def)
  have q: "m_transfers (get_channel Requests c) = [?req]"
    using assms(1-3) by (auto simp: conn_at_def requests_at_def call_reqs_def)
  have q1: "m_transfers (m_requests_channel ?c1) = [?req]" using q by (simp add: requests_channel)
  have r: "ready_for_packet Responses ?c0" by simp
  have e: "conn_at t' [] sq sr u1 [] ?e"
    using assms(1,2) q by (simp add: conn_at_def requests_at_def)
  have "\<exists>c2 h. packet_handler pr rp Responses (data_packet x) ?c1 = Inr (c2, h)
      \<and> (\<exists>j. conn_at t' (call_reqs j call') (sq @ map raw_data (sent_by Requests [call']))
              (sr @ map raw_data (sent_by Responses [call'])) u1 []
            (?idle (if h then c2 else start_write Responses (data_packet x) False None c2)))"
  proof (cases "call_internal call")
    case True
    then obtain cb where cb: "call_cb call = Some cb" "rp cb ?p (data_packet x) t = Inr (t', [call'])"
      using assms(3,4) by (cases call; cases "call_cb call") auto
    let ?c3 = "?pop (apply_call call' (?c2\<lparr>m_target := Some t'\<rparr>))"
    have h: "packet_handler pr rp Responses (data_packet x) ?c1 = Inr (?c3, True)"
      using cb q1 t True by (simp add: packet_handler_def on_response_def Let_def)
    have "m_transfers (get_channel Requests (?c2\<lparr>m_target := Some t'\<rparr>)) \<noteq> []" using q by simp
    from apply_call_pop [OF assms(5) this] have "?idle ?c3 = apply_call call' ?e"
      by (simp only: apply_call_packet)
    with conn_at_call [OF e assms(5)] h show ?thesis
      by (intro exI [of _ ?c3] exI [of _ True]) (simp only: simp_thms if_True, rule exI)
  next
    case False
    then have c: "call_cb call = None" "t' = t" "call' = Internal_Response (data_packet x)"
      using assms(3,4) by (cases call; cases "call_cb call"; simp)+
    let ?c3 = "?pop ?c2"
    have h: "packet_handler pr rp Responses (data_packet x) ?c1 = Inr (?c3, False)"
      using c q1 False by (simp add: packet_handler_def on_response_def Let_def)
    have "?idle (start_write Responses (data_packet x) False None ?c3)
        = start_write Responses (data_packet x) False None (?idle ?c3)"
      by (simp add: start_write_def upd_channel_def Let_def)
    moreover have "conn_at t [] sq sr u1 [] (?idle ?c3)" using assms(1,2) q by (simp add: conn_at_def requests_at_def)
    ultimately show ?thesis
      using h assms(6) conn_at_passed [of t "[]" sq sr u1 "[]" "?idle ?c3" "data_packet x" False] c(2,3)
      by (intro exI [of _ ?c3] exI [of _ False]) (simp add: call_reqs_def)
  qed
  then obtain c2 h j where h: "packet_handler pr rp Responses (data_packet x) ?c1 = Inr (c2, h)"
    "conn_at t' (call_reqs j call') (sq @ map raw_data (sent_by Requests [call']))
       (sr @ map raw_data (sent_by Responses [call'])) u1 []
       (?idle (if h then c2 else start_write Responses (data_packet x) False None c2))" by blast
  have "process_packet pr rp Responses (wire x @ []) ?c0
      = Inr (?idle (if h then c2 else start_write Responses (data_packet x) False None c2), [])"
    unfolding process_wire [OF r assms(6)] h(1) bind_res_simps prod.case ..
  then have "process_loop pr rp Responses (wire x) ?c0
      = Inr (?idle (if h then c2 else start_write Responses (data_packet x) False None c2))"
    by (subst process_loop.simps) simp
  then have "process_loop pr rp Responses v c
      = Inr (?idle (if h then c2 else start_write Responses (data_packet x) False None c2))"
    using process_rest [OF m assms(6-8), of pr rp] True by simp
  with h(2) show ?thesis
    by (intro exI [of _ "?idle (if h then c2 else start_write Responses (data_packet x) False None c2)"])
      (simp only: True simp_thms if_True, rule exI)
qed

lemma remote_ack:
  assumes "conn_at t (call_reqs i call) sq sr u1 [] c" and "ch_writes (get_channel Requests c) = []"
    and "call_dir call = Requests"
  shows "\<exists>c'. process_loop pr rp Responses ''+'' c = Inr c'
    \<and> ch_writes (get_channel Requests c') = []
    \<and> conn_at t (call_reqs i call) sq (sr @ (if call_internal call then [] else [''+''])) u1 [] c'"
proof -
  let ?req = "\<lparr>tr_id = i, tr_pkt = call_packet call, is_internal = call_internal call, on_response_cb = call_cb call\<rparr>"
  let ?c1 = "upd_channel Responses (\<lambda>ch. ch\<lparr>m_packet := ack_pkt\<rparr>) c"
  let ?idle = "upd_channel Responses (\<lambda>ch. ch\<lparr>m_packet := empty_packet\<rparr>)"
  have q: "m_transfers (get_channel Requests c) = [?req]"
    using assms by (auto simp: conn_at_def requests_at_def call_reqs_def)
  then have "m_transfers (m_requests_channel ?c1) = [?req]" by (simp add: requests_channel)
  then have h: "packet_handler pr rp Responses ack_pkt ?c1 = Inr (?c1, call_internal call)"
    by (simp add: packet_handler_def on_response_def)
  have r: "ready_for_packet Responses c" using assms(1) by (simp add: conn_at_def)
  show ?thesis
  proof (cases "call_internal call")
    case True
    have "process_loop pr rp Responses ''+'' c = Inr c"
      using r h True by (subst process_loop.simps) (simp add: process_packet_def reset_ready Let_def)
    with assms(1,2) True show ?thesis by simp
  next
    case False
    let ?c' = "start_write Responses ack_pkt False None c"
    have "?idle (start_write Responses ack_pkt False None ?c1) = start_write Responses ack_pkt False None (?idle ?c1)"
      by (simp add: start_write_def upd_channel_def Let_def)
    also have "?idle ?c1 = c" using reset_ready [OF r] by simp
    finally have "?idle (start_write Responses ack_pkt False None ?c1) = ?c'" .
    then have "process_loop pr rp Responses ''+'' c = Inr ?c'"
      using r h False by (subst process_loop.simps) (simp add: process_packet_def Let_def)
    with assms(1,2) False conn_at_passed [OF assms(1), of ack_pkt False] show ?thesis
      by (simp add: start_write_channel)
  qed
qed

subsection \<open>The stages of an exchange\<close>

text \<open>The target has pushed a packet, and the receiver of the packet has still to get it.\<close>

definition called :: "'t \<Rightarrow> 'cb conn_call \<Rightarrow> string list \<Rightarrow> ('t, 'cb) sys \<Rightarrow> bool" where
  "called t call out s =
     (\<exists>i. stage t (call_reqs i call) (out @ map raw_data (sent_by Responses [call]))
        (map raw_data (sent_by Responses [call])) (map raw_data (sent_by Requests [call])) [] [] [] [] s)"

lemma stage_conn:
  "stage t reqs out qc qr u1 w1 u2 w2 s \<Longrightarrow>
     conn_at t reqs (ch_sent (get_channel Requests (sys_conn s))) out u1 u2 (unread d (sys_conn s))"
  by (auto simp: stage_def) (simp add: conn_at_def)

lemma stage_streams:
  "stage t reqs out qc qr u1 w1 u2 w2 s \<Longrightarrow> stream d s = (case d of Requests \<Rightarrow> w1 | Responses \<Rightarrow> w2)"
  by (cases d) (simp_all add: stage_def stream_def)

lemma client_read:
  fixes s :: "('t, 'cb) sys"
  assumes st: "stage t [] out [] [] u w [] [] s" and x: "w = x @ y" "x \<noteq> []" "length x < buffer_capacity"
    and h: "handled_as pr t p t' call" "call_ok call" "plain p" "wire p = u @ w"
  shows "\<exists>c'. conn_step pr rp (Read_Done Requests False x) (sys_conn s) = Inr c'
    \<and> (if y = [] then called t' call out (set_stream Requests y (s\<lparr>sys_conn := c'\<rparr>))
       else stage t [] out [] [] (u @ x) y [] [] (set_stream Requests y (s\<lparr>sys_conn := c'\<rparr>)))"
proof -
  have str: "stream Requests s = x @ y" using x(1) stage_streams [OF st, of Requests] by simp
  have "wire p = u @ x @ y" using h(4) x(1) by simp
  from client_packet [where pr = pr and rp = rp, OF stage_conn [OF st, of Requests] h(1-3) this x(2)] obtain c'
    where p: "process_loop pr rp Requests x (unread Requests (sys_conn s)) = Inr c'"
      and c: "if y = []
       then \<exists>i. conn_at t' (call_reqs i call)
              (ch_sent (get_channel Requests (sys_conn s)) @ map raw_data (sent_by Requests [call]))
              (out @ map raw_data (sent_by Responses [call])) [] [] c'
       else conn_at t [] (ch_sent (get_channel Requests (sys_conn s)) @ []) (out @ []) (u @ x) [] c'" by blast
  show ?thesis
  proof (cases "y = []")
    case True
    with c obtain i where i: "conn_at t' (call_reqs i call)
              (ch_sent (get_channel Requests (sys_conn s)) @ map raw_data (sent_by Requests [call]))
              (out @ map raw_data (sent_by Responses [call])) [] [] c'" by auto
    from stage_read [OF st str x(2,3) p i, of 0 _ 0] True show ?thesis
      by (auto simp: called_def simp del: sent_by_one conn_step.simps)
  next
    case False
    with c have i: "conn_at t [] (ch_sent (get_channel Requests (sys_conn s)) @ []) (out @ []) (u @ x) [] c'" by simp
    from stage_read [OF st str x(2,3) p i, of 0 _ 0] False show ?thesis by (auto simp del: conn_step.simps)
  qed
qed

lemma client_reads:
  fixes s :: "('t, 'cb) sys"
  assumes h: "handled_as pr t p t' call" "call_ok call" "plain p"
    and goal: "\<And>s. called t' call out s \<Longrightarrow> inevitable (orderly pr rp acks f g) P s"
  shows "\<lbrakk>stage t [] out [] [] u w [] [] s; wire p = u @ w; w \<noteq> []\<rbrakk> \<Longrightarrow> inevitable (orderly pr rp acks f g) P s"
proof (induction "length w" arbitrary: u w s rule: less_induct)
  case less
  show ?case
  proof (rule stage_inevitable [OF _ _ _ _ less.prems(1)])
    fix s :: "('t, 'cb) sys" and d x y
    assume a: "stage t [] out [] [] u w [] [] s" "stream d s = x @ y" "x \<noteq> []" "length x < buffer_capacity"
    then have d: "d = Requests" "w = x @ y" using stage_streams [OF a(1), of d] by (cases d; simp)+
    from client_read [where rp = rp, OF a(1) d(2) a(3,4) h less.prems(2)] obtain c'
      where c': "conn_step pr rp (Read_Done Requests False x) (sys_conn s) = Inr c'"
        "if y = [] then called t' call out (set_stream Requests y (s\<lparr>sys_conn := c'\<rparr>))
         else stage t [] out [] [] (u @ x) y [] [] (set_stream Requests y (s\<lparr>sys_conn := c'\<rparr>))" by blast
    have "inevitable (orderly pr rp acks f g) P (set_stream Requests y (s\<lparr>sys_conn := c'\<rparr>))"
      using c'(2) goal less.hyps [of y "u @ x" "set_stream Requests y (s\<lparr>sys_conn := c'\<rparr>)"] less.prems(2) d(2) a(3)
      by (cases "y = []") simp_all
    with c'(1) show "\<exists>c'. conn_step pr rp (Read_Done d False x) (sys_conn s) = Inr c'
        \<and> inevitable (orderly pr rp acks f g) P (set_stream d y (s\<lparr>sys_conn := c'\<rparr>))" unfolding d(1) by blast
  qed (use less.prems(3) in simp_all)
qed

lemma remote_read:
  fixes s :: "('t, 'cb) sys"
  assumes st: "stage t (call_reqs i call) out [] [] [] [] u w s"
    and x: "w = x @ y" "x \<noteq> []" "length x < buffer_capacity" and q: "ch_writes (get_channel Requests (sys_conn s)) = []"
    and h: "call_dir call = Requests" "replied_as rp call p t t' call'" "call_ok call'" "plain p" "wire p = u @ w"
  shows "\<exists>c'. conn_step pr rp (Read_Done Responses False x) (sys_conn s) = Inr c'
    \<and> (if y = [] then called t' call' out (set_stream Responses y (s\<lparr>sys_conn := c'\<rparr>))
       else stage t (call_reqs i call) out [] [] [] [] (u @ x) y (set_stream Responses y (s\<lparr>sys_conn := c'\<rparr>)))"
proof -
  have str: "stream Responses s = x @ y" using x(1) stage_streams [OF st, of Responses] by simp
  have q': "ch_writes (get_channel Requests (unread Responses (sys_conn s))) = []" using q by simp
  have "wire p = u @ x @ y" using h(5) x(1) by simp
  from remote_packet [where pr = pr and rp = rp, OF stage_conn [OF st, of Responses] q' h(1-4) this x(2)] obtain c'
    where p: "process_loop pr rp Responses x (unread Responses (sys_conn s)) = Inr c'"
      and c: "if y = []
       then \<exists>j. conn_at t' (call_reqs j call')
              (ch_sent (get_channel Requests (sys_conn s)) @ map raw_data (sent_by Requests [call']))
              (out @ map raw_data (sent_by Responses [call'])) [] [] c'
       else conn_at t (call_reqs i call) (ch_sent (get_channel Requests (sys_conn s)) @ []) (out @ []) [] (u @ x) c'"
    by blast
  show ?thesis
  proof (cases "y = []")
    case True
    with c obtain j where j: "conn_at t' (call_reqs j call')
              (ch_sent (get_channel Requests (sys_conn s)) @ map raw_data (sent_by Requests [call']))
              (out @ map raw_data (sent_by Responses [call'])) [] [] c'" by auto
    from stage_read [OF st str x(2,3) p j, of 0 _ 0] True show ?thesis
      by (auto simp: called_def simp del: sent_by_one conn_step.simps)
  next
    case False
    with c have j: "conn_at t (call_reqs i call) (ch_sent (get_channel Requests (sys_conn s)) @ []) (out @ []) [] (u @ x) c'"
      by simp
    from stage_read [OF st str x(2,3) p j, of 0 _ 0] False show ?thesis by (auto simp del: conn_step.simps)
  qed
qed

lemma remote_reads:
  fixes s :: "('t, 'cb) sys"
  assumes h: "call_dir call = Requests" "replied_as rp call p t t' call'" "call_ok call'" "plain p"
    and goal: "\<And>s. called t' call' out s \<Longrightarrow> inevitable (orderly pr rp acks f g) P s"
  shows "\<lbrakk>stage t (call_reqs i call) out [] [] [] [] u w s; wire p = u @ w; w \<noteq> []\<rbrakk> \<Longrightarrow>
    inevitable (orderly pr rp acks f g) P s"
proof (induction "length w" arbitrary: u w s rule: less_induct)
  case less
  show ?case
  proof (rule stage_inevitable [OF _ _ _ _ less.prems(1)])
    fix s :: "('t, 'cb) sys" and d x y
    assume a: "stage t (call_reqs i call) out [] [] [] [] u w s" "stream d s = x @ y" "x \<noteq> []"
      "length x < buffer_capacity" "d = Responses \<longrightarrow> ch_writes (get_channel Requests (sys_conn s)) = []"
    then have d: "d = Responses" "w = x @ y" using stage_streams [OF a(1), of d] by (cases d; simp)+
    with a(5) have "ch_writes (get_channel Requests (sys_conn s)) = []" by simp
    from remote_read [where pr = pr, OF a(1) d(2) a(3,4) this h less.prems(2)] obtain c'
      where c': "conn_step pr rp (Read_Done Responses False x) (sys_conn s) = Inr c'"
        "if y = [] then called t' call' out (set_stream Responses y (s\<lparr>sys_conn := c'\<rparr>))
         else stage t (call_reqs i call) out [] [] [] [] (u @ x) y (set_stream Responses y (s\<lparr>sys_conn := c'\<rparr>))" by blast
    have "inevitable (orderly pr rp acks f g) P (set_stream Responses y (s\<lparr>sys_conn := c'\<rparr>))"
      using c'(2) goal less.hyps [of y "u @ x" "set_stream Responses y (s\<lparr>sys_conn := c'\<rparr>)"] less.prems(2) d(2) a(3)
      by (cases "y = []") simp_all
    with c'(1) show "\<exists>c'. conn_step pr rp (Read_Done d False x) (sys_conn s) = Inr c'
        \<and> inevitable (orderly pr rp acks f g) P (set_stream d y (s\<lparr>sys_conn := c'\<rparr>))" unfolding d(1) by blast
  qed (use less.prems(3) in simp_all)
qed

subsection \<open>Acknowledgements\<close>

lemma process_after_ack:
  assumes "process_loop pr rp d ''+'' c = Inr c'"
  shows "process_loop pr rp d (CHR ''+'' # v) c = (if v = [] then Inr c' else process_loop pr rp d v c')"
  using assms process_loop_append [of "''+''" v pr rp d c] by simp

text \<open>The client acknowledges a packet, and sends the next one.\<close>

lemma client_read_acked:
  fixes s :: "('t, 'cb) sys"
  assumes st: "stage t [] out [] [] [] (CHR ''+'' # wire p) [] [] s"
    and x: "wire p = v @ y" "length (CHR ''+'' # v) < buffer_capacity"
    and h: "handled_as pr t p t' call" "call_ok call" "plain p"
  shows "\<exists>c'. conn_step pr rp (Read_Done Requests False (CHR ''+'' # v)) (sys_conn s) = Inr c'
    \<and> (if y = [] then called t' call out (set_stream Requests y (s\<lparr>sys_conn := c'\<rparr>))
       else stage t [] out [] [] v y [] [] (set_stream Requests y (s\<lparr>sys_conn := c'\<rparr>)))"
proof -
  let ?sq = "ch_sent (get_channel Requests (sys_conn s))" and ?c = "unread Requests (sys_conn s)"
  have str: "stream Requests s = (CHR ''+'' # v) @ y" using x(1) stage_streams [OF st, of Requests] by simp
  obtain cA where a: "process_loop pr rp Requests ''+'' ?c = Inr cA" "conn_at t [] (?sq @ [''+'']) out [] [] cA"
    using client_ack [where pr = pr and rp = rp, OF stage_conn [OF st, of Requests]] by auto
  have kr: "[] @ [''+''] = replicate 1 ''+'' @ []" by simp
  show ?thesis
  proof (cases "v = []")
    case True
    have c: "conn_at t [] (?sq @ [''+'']) (out @ []) [] [] cA" using a(2) by simp
    have p: "process_loop pr rp Requests (CHR ''+'' # v) ?c = Inr cA" using a(1) True by simp
    have "y \<noteq> []" using x(1) True by (auto simp: wire_def)
    with stage_read [OF st str _ x(2) p c, of 0 _ 1] True show ?thesis by (auto simp del: conn_step.simps)
  next
    case False
    have w: "wire p = [] @ v @ y" using x(1) by simp
    from client_packet [where pr = pr and rp = rp, OF a(2) h w False] obtain c'
      where p: "process_loop pr rp Requests v cA = Inr c'"
        and c: "if y = []
         then \<exists>i. conn_at t' (call_reqs i call) ((?sq @ [''+'']) @ map raw_data (sent_by Requests [call]))
                (out @ map raw_data (sent_by Responses [call])) [] [] c'
         else conn_at t [] ((?sq @ [''+'']) @ []) (out @ []) ([] @ v) [] c'" by blast
    have p': "process_loop pr rp Requests (CHR ''+'' # v) ?c = Inr c'"
      using process_after_ack [OF a(1), of v] p False by simp
    show ?thesis
    proof (cases "y = []")
      case True
      with c obtain i where i: "conn_at t' (call_reqs i call) (?sq @ [''+''] @ map raw_data (sent_by Requests [call]))
                (out @ map raw_data (sent_by Responses [call])) [] [] c'" by auto
      from stage_read [OF st str _ x(2) p' i, of 0 _ 1] True show ?thesis
        by (auto simp: called_def simp del: sent_by_one conn_step.simps)
    next
      case False
      with c have i: "conn_at t [] (?sq @ [''+'']) (out @ []) v [] c'" by simp
      from stage_read [OF st str _ x(2) p' i, of 0 _ 1] False show ?thesis by (auto simp del: conn_step.simps)
    qed
  qed
qed

lemma client_sends:
  fixes s :: "('t, 'cb) sys"
  assumes h: "handled_as pr t p t' call" "call_ok call" "plain p"
    and goal: "\<And>s. called t' call out s \<Longrightarrow> inevitable (orderly pr rp acks f g) P s"
    and st: "stage t [] out [] [] [] ((if b then ''+'' else []) @ wire p) [] [] s"
  shows "inevitable (orderly pr rp acks f g) P s"
proof (cases b)
  case False
  show ?thesis by (rule client_reads [where u = "[]" and w = "wire p", OF h goal]) (use st False in \<open>simp_all add: wire_def\<close>)
next
  case True
  then have st: "stage t [] out [] [] [] (CHR ''+'' # wire p) [] [] s" using st by simp
  show ?thesis
  proof (rule stage_inevitable [OF _ _ _ _ st])
    fix s :: "('t, 'cb) sys" and d x y
    assume a: "stage t [] out [] [] [] (CHR ''+'' # wire p) [] [] s" "stream d s = x @ y" "x \<noteq> []" "length x < buffer_capacity"
    then have d: "d = Requests" "CHR ''+'' # wire p = x @ y" using stage_streams [OF a(1), of d] by (cases d; simp)+
    then obtain v where v: "x = CHR ''+'' # v" "wire p = v @ y" using a(3) by (cases x) auto
    from client_read_acked [where rp = rp, OF a(1) v(2) a(4) [unfolded v(1)] h] obtain c'
      where c': "conn_step pr rp (Read_Done Requests False x) (sys_conn s) = Inr c'"
        "if y = [] then called t' call out (set_stream Requests y (s\<lparr>sys_conn := c'\<rparr>))
         else stage t [] out [] [] v y [] [] (set_stream Requests y (s\<lparr>sys_conn := c'\<rparr>))" unfolding v(1) by blast
    have "inevitable (orderly pr rp acks f g) P (set_stream Requests y (s\<lparr>sys_conn := c'\<rparr>))"
      using c'(2) goal client_reads [where rp = rp, OF h goal _ v(2)] by (cases "y = []") simp_all
    with c'(1) show "\<exists>c'. conn_step pr rp (Read_Done d False x) (sys_conn s) = Inr c'
        \<and> inevitable (orderly pr rp acks f g) P (set_stream d y (s\<lparr>sys_conn := c'\<rparr>))" unfolding d(1) by blast
  qed simp_all
qed

text \<open>The remote acknowledges a packet and replies. Its acknowledgement goes to the client if it was the client's packet.\<close>

definition acks_passed :: "bool \<Rightarrow> 'cb conn_call \<Rightarrow> string list" where
  "acks_passed acks call = (if call_internal call \<or> \<not> acks then [] else [''+''])"

lemma remote_read_acked:
  fixes s :: "('t, 'cb) sys"
  assumes st: "stage t (call_reqs i call) out [] [] [] [] [] (CHR ''+'' # wire p) s"
    and x: "wire p = v @ y" "length (CHR ''+'' # v) < buffer_capacity"
    and q: "ch_writes (get_channel Requests (sys_conn s)) = []"
    and h: "call_dir call = Requests" "replied_as rp call p t t' call'" "call_ok call'" "plain p"
  shows "\<exists>c'. conn_step pr rp (Read_Done Responses False (CHR ''+'' # v)) (sys_conn s) = Inr c'
    \<and> (if y = [] then called t' call' (out @ acks_passed True call) (set_stream Responses y (s\<lparr>sys_conn := c'\<rparr>))
       else stage t (call_reqs i call) (out @ acks_passed True call) [] [] [] [] v y
              (set_stream Responses y (s\<lparr>sys_conn := c'\<rparr>)))"
proof -
  let ?sq = "ch_sent (get_channel Requests (sys_conn s))" and ?c = "unread Responses (sys_conn s)"
  let ?a = "acks_passed True call" and ?k = "length (acks_passed True call)"
  have k: "?a = replicate ?k ''+''" by (simp add: acks_passed_def)
  have str: "stream Responses s = (CHR ''+'' # v) @ y" using x(1) stage_streams [OF st, of Responses] by simp
  have q': "ch_writes (get_channel Requests ?c) = []" using q by simp
  obtain cA where a: "process_loop pr rp Responses ''+'' ?c = Inr cA" "ch_writes (get_channel Requests cA) = []"
      "conn_at t (call_reqs i call) ?sq (out @ ?a) [] [] cA"
    using remote_ack [where pr = pr and rp = rp, OF stage_conn [OF st, of Responses] q' h(1)]
    by (auto simp: acks_passed_def)
  show ?thesis
  proof (cases "v = []")
    case True
    have c: "conn_at t (call_reqs i call) (?sq @ []) (out @ ?a) [] [] cA" using a(3) by simp
    have p: "process_loop pr rp Responses (CHR ''+'' # v) ?c = Inr cA" using a(1) True by simp
    have "y \<noteq> []" using x(1) True by (auto simp: wire_def)
    with stage_read [OF st str _ x(2) p c, of ?k "[]" 0 "[]"] k True show ?thesis by (simp del: conn_step.simps)
  next
    case False
    have w: "wire p = [] @ v @ y" using x(1) by simp
    from remote_packet [where pr = pr and rp = rp, OF a(3,2) h w False] obtain c'
      where p: "process_loop pr rp Responses v cA = Inr c'"
        and c: "if y = []
         then \<exists>j. conn_at t' (call_reqs j call') (?sq @ map raw_data (sent_by Requests [call']))
                ((out @ ?a) @ map raw_data (sent_by Responses [call'])) [] [] c'
         else conn_at t (call_reqs i call) (?sq @ []) ((out @ ?a) @ []) [] ([] @ v) c'" by blast
    have p': "process_loop pr rp Responses (CHR ''+'' # v) ?c = Inr c'"
      using process_after_ack [OF a(1), of v] p False by simp
    show ?thesis
    proof (cases "y = []")
      case True
      with c obtain j where j: "conn_at t' (call_reqs j call') (?sq @ map raw_data (sent_by Requests [call']))
                (out @ ?a @ map raw_data (sent_by Responses [call'])) [] [] c'" by auto
      from stage_read [OF st str _ x(2) p' j, of ?k "map raw_data (sent_by Responses [call'])" 0 "map raw_data (sent_by Requests [call'])"]
        k True show ?thesis
        by (auto simp: called_def simp del: sent_by_one conn_step.simps)
    next
      case False
      with c have j: "conn_at t (call_reqs i call) (?sq @ []) (out @ ?a) [] v c'" by simp
      from stage_read [OF st str _ x(2) p' j, of ?k "[]" 0 "[]"] k False show ?thesis by (simp del: conn_step.simps)
    qed
  qed
qed

lemma remote_answers:
  fixes s :: "('t, 'cb) sys"
  assumes h: "call_dir call = Requests" "replied_as rp call p t t' call'" "call_ok call'" "plain p"
    and goal: "\<And>s. called t' call' (out @ acks_passed acks call) s \<Longrightarrow> inevitable (orderly pr rp acks f g) P s"
    and st: "stage t (call_reqs i call) out [] [] [] [] [] ((if acks then ''+'' else []) @ wire p) s"
  shows "inevitable (orderly pr rp acks f g) P s"
proof (cases acks)
  case False
  then have n: "acks_passed acks call = []" by (simp add: acks_passed_def)
  show ?thesis
    by (rule remote_reads [where u = "[]" and w = "wire p", OF h goal [unfolded n append_Nil2]])
      (use st False in \<open>simp_all add: wire_def\<close>)
next
  case True
  then have st: "stage t (call_reqs i call) out [] [] [] [] [] (CHR ''+'' # wire p) s" using st by simp
  show ?thesis
  proof (rule stage_inevitable [OF _ _ _ _ st])
    fix s :: "('t, 'cb) sys" and d x y
    assume a: "stage t (call_reqs i call) out [] [] [] [] [] (CHR ''+'' # wire p) s" "stream d s = x @ y" "x \<noteq> []"
      "length x < buffer_capacity" "d = Responses \<longrightarrow> ch_writes (get_channel Requests (sys_conn s)) = []"
    then have d: "d = Responses" "CHR ''+'' # wire p = x @ y" using stage_streams [OF a(1), of d] by (cases d; simp)+
    then obtain v where v: "x = CHR ''+'' # v" "wire p = v @ y" using a(3) by (cases x) auto
    have "ch_writes (get_channel Requests (sys_conn s)) = []" using a(5) d(1) by simp
    from remote_read_acked [where pr = pr, OF a(1) v(2) a(4) [unfolded v(1)] this h] obtain c'
      where c': "conn_step pr rp (Read_Done Responses False x) (sys_conn s) = Inr c'"
        "if y = [] then called t' call' (out @ acks_passed True call) (set_stream Responses y (s\<lparr>sys_conn := c'\<rparr>))
         else stage t (call_reqs i call) (out @ acks_passed True call) [] [] [] [] v y
           (set_stream Responses y (s\<lparr>sys_conn := c'\<rparr>))" unfolding v(1) by blast
    have "inevitable (orderly pr rp acks f g) P (set_stream Responses y (s\<lparr>sys_conn := c'\<rparr>))"
      using c'(2) goal [unfolded True] remote_reads [where pr = pr, OF h goal _ v(2)] True
      by (cases "y = []") simp_all
    with c'(1) show "\<exists>c'. conn_step pr rp (Read_Done d False x) (sys_conn s) = Inr c'
        \<and> inevitable (orderly pr rp acks f g) P (set_stream d y (s\<lparr>sys_conn := c'\<rparr>))" unfolding d(1) by blast
  qed simp_all
qed

subsection \<open>Questions and answers\<close>

text \<open>The remote gets what was pushed or passed on, and the reply arrives.\<close>

lemma ask_inevitable:
  fixes s :: "('t, 'cb) sys"
  assumes c: "call_dir call = Requests" "call_ok call"
    and h: "replied_as rp call (f (pkt_data (call_packet call))) t t' call'" "call_ok call'"
      "plain (f (pkt_data (call_packet call)))"
    and goal: "\<And>s. called t' call' (out @ acks_passed acks call) s \<Longrightarrow> inevitable (orderly pr rp acks f g) P s"
    and st: "called t call out s"
  shows "inevitable (orderly pr rp acks f g) P s"
proof -
  let ?p = "call_packet call"
  have p: "data_pkt ?p" using c(2) by (simp add: call_ok_def)
  obtain i where i: "stage t (call_reqs i call) out [] [raw_data ?p] [] [] [] [] s"
    using st c(1) by (auto simp: called_def)
  show ?thesis
  proof (rule stage_inevitable [OF _ _ _ _ i])
    show "[raw_data ?p] = [] \<or> [raw_data ?p] = [raw_data ?p] \<and>
      (\<forall>s. stage t (call_reqs i call) out [] [] [] [] [] ([] @ remote_bytes acks f (raw_data ?p)) s
         \<longrightarrow> inevitable (orderly pr rp acks f g) P s)"
      using remote_answers [where pr = pr and i = i, OF c(1) h goal] by (simp add: peer_bytes_data(1) [OF p])
    fix s :: "('t, 'cb) sys" and d x y
    assume a: "stage t (call_reqs i call) out [] [raw_data ?p] [] [] [] [] s"
    show "P s" if "pending s = 0" using a that by (auto simp: stage_def pending_def)
    assume "stream d s = x @ y" "x \<noteq> []"
    with stage_streams [OF a, of d] have False by (cases d) simp_all
    then show "\<exists>c'. conn_step pr rp (Read_Done d False x) (sys_conn s) = Inr c'
        \<and> inevitable (orderly pr rp acks f g) P (set_stream d y (s\<lparr>sys_conn := c'\<rparr>))" ..
  qed simp
qed

text \<open>The client gets a packet, and sends something.\<close>

lemma answer_inevitable:
  fixes s :: "('t, 'cb) sys"
  assumes q: "data_pkt q"
    and goal: "\<And>s. stage t [] (out @ [raw_data q]) [] [] [] (g (pkt_data q)) [] [] s
      \<Longrightarrow> inevitable (orderly pr rp acks f g) P s"
    and st: "called t (Internal_Response q) out s"
  shows "inevitable (orderly pr rp acks f g) P s"
proof -
  have i: "stage t [] (out @ [raw_data q]) [raw_data q] [] [] [] [] [] s"
    using st by (simp add: called_def call_reqs_def)
  show ?thesis
  proof (rule stage_inevitable [OF _ _ _ _ i])
    show "[raw_data q] = [] \<or> [raw_data q] = [raw_data q] \<and>
      (\<forall>s. stage t [] (out @ [raw_data q]) [] [] [] ([] @ client_bytes g (raw_data q)) [] [] s
         \<longrightarrow> inevitable (orderly pr rp acks f g) P s)"
      using goal by (simp add: peer_bytes_data(2) [OF q])
    fix s :: "('t, 'cb) sys" and d x y
    assume a: "stage t [] (out @ [raw_data q]) [raw_data q] [] [] [] [] [] s"
    show "P s" if "pending s = 0" using a that by (auto simp: stage_def pending_def)
    assume "stream d s = x @ y" "x \<noteq> []"
    with stage_streams [OF a, of d] have False by (cases d) simp_all
    then show "\<exists>c'. conn_step pr rp (Read_Done d False x) (sys_conn s) = Inr c'
        \<and> inevitable (orderly pr rp acks f g) P (set_stream d y (s\<lparr>sys_conn := c'\<rparr>))" ..
  qed simp
qed

subsection \<open>Rest\<close>

text \<open>A connection between two exchanges, and the closed system when nothing is left to be done but to read \<open>z\<close>.\<close>

definition quiet :: "'t \<Rightarrow> string list \<Rightarrow> ('t, 'cb) connection \<Rightarrow> bool" where
  "quiet t out c =
     (m_target c = Some t \<and> ch_sent (get_channel Responses c) = out
      \<and> (\<forall>d. ready_for_packet d c \<and> ch_reading (get_channel d c)
            \<and> m_transfers (get_channel d c) = [] \<and> ch_writes (get_channel d c) = []))"

definition settled :: "'t \<Rightarrow> string list \<Rightarrow> string \<Rightarrow> ('t, 'cb) sys \<Rightarrow> bool" where
  "settled t out z s =
     (from_client s = z \<and> from_remote s = [] \<and> quiet t out (sys_conn s)
      \<and> (\<forall>d. seen d s = length (ch_sent (get_channel d (sys_conn s)))))"

lemma settled_stage: "settled t out z s \<Longrightarrow> stage t [] out [] [] [] z [] [] s"
  by (auto simp: settled_def quiet_def stage_def conn_at_def requests_at_def unseen_def all_directions)

lemma stage_settled:
  assumes "stage t [] out [] [] [] [] [] [] s" and "pending s = 0"
  shows "settled t out [] s"
proof -
  have w: "ch_writes (get_channel d (sys_conn s)) = []" "unseen d s = []" for d
    using assms(2) by (cases d; simp add: pending_def)+
  have "m_transfers (get_channel Requests (sys_conn s)) = []"
    using assms(1) w(1) [of Requests] by (auto simp: stage_def conn_at_def requests_at_def)
  moreover have "m_transfers (get_channel Responses (sys_conn s)) = []"
    using assms(1) w(1) [of Responses] by (auto simp: stage_def conn_at_def)
  moreover have "seen d s = length (ch_sent (get_channel d (sys_conn s)))" for d
  proof (rule order_antisym)
    show "seen d s \<le> length (ch_sent (get_channel d (sys_conn s)))" using assms(1) by (simp add: stage_def)
    show "length (ch_sent (get_channel d (sys_conn s))) \<le> seen d s" using w(2) [of d] by (simp add: unseen_def)
  qed
  ultimately show ?thesis
    using assms(1) w(1) by (simp add: settled_def quiet_def stage_def conn_at_def all_directions)
qed

lemma resting:
  assumes "stage t [] out [] [] [] [] [] [] s"
  shows "inevitable (orderly pr rp acks f g) (settled t out []) s"
proof (rule stage_inevitable [OF _ _ _ _ assms])
  fix s :: "('a, 'b) sys" and d x y
  assume a: "stage t [] out [] [] [] [] [] [] s"
  show "settled t out [] s" if "pending s = 0" by (rule stage_settled [OF a that])
  assume "stream d s = x @ y" "x \<noteq> []"
  with stage_streams [OF a, of d] have False by (cases d) simp_all
  then show "\<exists>c'. conn_step pr rp (Read_Done d False x) (sys_conn s) = Inr c'
      \<and> inevitable (orderly pr rp acks f g) (settled t out []) (set_stream d y (s\<lparr>sys_conn := c'\<rparr>))" ..
qed simp_all

lemma resting_acked:
  fixes s :: "('t, 'cb) sys"
  assumes st: "stage t [] out [] [] [] ''+'' [] [] s"
  shows "inevitable (orderly pr rp acks f g) (settled t out []) s"
proof (rule stage_inevitable [OF _ _ _ _ st])
  fix s :: "('t, 'cb) sys" and d x y
  assume a: "stage t [] out [] [] [] ''+'' [] [] s" "stream d s = x @ y" "x \<noteq> []" "length x < buffer_capacity"
  then have d: "d = Requests" "x = ''+''" "y = []"
    using stage_streams [OF a(1), of d] by (cases d; cases x; simp)+
  obtain c' where c': "process_loop pr rp Requests x (unread Requests (sys_conn s)) = Inr c'"
    "conn_at t [] (ch_sent (get_channel Requests (sys_conn s)) @ [''+'']) (out @ []) [] [] c'"
    using client_ack [where pr = pr and rp = rp, OF stage_conn [OF a(1), of Requests]] unfolding d(2) by blast
  have "[] @ [''+''] = replicate 1 ''+'' @ []" by simp
  from stage_read [OF a(1) a(2) [unfolded d(1)] a(3,4) c' _ this, of 0 "[]"] resting [where pr = pr and rp = rp]
  show "\<exists>c'. conn_step pr rp (Read_Done d False x) (sys_conn s) = Inr c'
      \<and> inevitable (orderly pr rp acks f g) (settled t out []) (set_stream d y (s\<lparr>sys_conn := c'\<rparr>))"
    unfolding d(1,3) by (auto simp del: conn_step.simps)
qed simp_all

text \<open>A client that does no more than acknowledge.\<close>

definition acks_only :: "(string \<Rightarrow> string) \<Rightarrow> bool" where
  "acks_only g = (\<forall>x. g x \<in> {[], ''+''})"

lemma resting_answered:
  assumes "stage t [] out [] [] [] z [] [] s" and "z \<in> {[], ''+''}"
  shows "inevitable (orderly pr rp acks f g) (settled t out []) s"
  using assms resting [where pr = pr and rp = rp] resting_acked [where pr = pr and rp = rp] by auto

subsection \<open>Dialogues and conversations\<close>

text \<open>
  The target asks one thing after the other, each reply making it ask the next, and in the end
  hands the client a packet \<open>q\<close>, or the remote's reply to a packet it passes on; \<open>pre\<close> is what the
  client gets before it.
\<close>

inductive dialogue ::
  "bool \<Rightarrow> ('t, 'cb) reply_fun \<Rightarrow> (string \<Rightarrow> string) \<Rightarrow> 't \<Rightarrow> 'cb conn_call \<Rightarrow> 't \<Rightarrow> string list \<Rightarrow> gdb_packet \<Rightarrow> bool"
  for acks rp f where
  dlg_end: "dialogue acks rp f t (Internal_Response q) t [] q"
| dlg_ask: "call_dir call = Requests \<Longrightarrow> replied_as rp call (f (pkt_data (call_packet call))) t t1 call1
    \<Longrightarrow> plain (f (pkt_data (call_packet call))) \<Longrightarrow> dialogue acks rp f t1 call1 t' pre q
    \<Longrightarrow> dialogue acks rp f t call t' (acks_passed acks call @ pre) q"

lemma dlg_internal:
  assumes "rp cb p (data_packet (f (pkt_data p))) t = Inr (t1, [call1])" and "plain (f (pkt_data p))"
    and "dialogue acks rp f t1 call1 t' pre q"
  shows "dialogue acks rp f t (Internal_Request p (Some cb)) t' pre q"
  using dlg_ask [of "Internal_Request p (Some cb)" rp f t t1 call1 acks t' pre q] assms
  by (simp add: acks_passed_def)

lemma dlg_passed:
  fixes rp :: "('t, 'cb) reply_fun"
  assumes "plain (f (pkt_data p))"
  shows "dialogue acks rp f t (Client_Request p None) t (if acks then [''+''] else []) (data_packet (f (pkt_data p)))"
proof -
  let ?call = "Client_Request p None :: 'cb conn_call"
  have "dialogue acks rp f t ?call t (acks_passed acks ?call @ []) (data_packet (f (pkt_data p)))"
    by (rule dlg_ask [OF _ _ _ dlg_end]) (use assms in simp_all)
  moreover have "acks_passed acks ?call @ [] = (if acks then [''+''] else [])"
    by (cases acks) (simp_all add: acks_passed_def)
  ultimately show ?thesis by (simp only:)
qed

text \<open>The client goes on until it has nothing more to say, but perhaps an acknowledgement.\<close>

inductive conversation ::
  "('t, 'cb) request_fun \<Rightarrow> ('t, 'cb) reply_fun \<Rightarrow> bool \<Rightarrow> (string \<Rightarrow> string)
     \<Rightarrow> (string \<Rightarrow> string) \<Rightarrow> 't \<Rightarrow> string \<Rightarrow> 't \<Rightarrow> string list \<Rightarrow> bool"
  for pr rp acks f g where
  conv_last: "handled_as pr t p t1 call \<Longrightarrow> dialogue acks rp f t1 call t' pre q
    \<Longrightarrow> g (pkt_data q) \<in> {[], ''+''} \<Longrightarrow> conversation pr rp acks f g t p t' (pre @ [raw_data q])"
| conv_more: "handled_as pr t p t1 call \<Longrightarrow> dialogue acks rp f t1 call t' pre q
    \<Longrightarrow> g (pkt_data q) = (if b then ''+'' else []) @ wire p' \<Longrightarrow> plain p' \<Longrightarrow> conversation pr rp acks f g t' p' t'' outs
    \<Longrightarrow> conversation pr rp acks f g t p t'' (pre @ [raw_data q] @ outs)"

lemma handled_as_ok:
  assumes "target_contract pr rp ti" and "ti t" and "plain p" and "handled_as pr t p t' call"
  shows "ti t' \<and> call_ok call"
proof -
  have d: "data_pkt (data_packet p)" using assms(3) by simp
  note r = target_contract.request_inv [OF assms(1,2) d] target_contract.request_calls [OF assms(1,2) d]
  from assms(4) consider "pr t (data_packet p) = Inr (t', [call], True)"
    | "pr t (data_packet p) = Inr (t', [], False)" "call = Client_Request (data_packet p) None"
    by (auto simp: handled_as_def)
  then show ?thesis
  proof cases
    case 1
    then show ?thesis using r(1) [OF 1] r(2) [OF 1] by simp
  next
    case 2
    then show ?thesis using r(1) [OF 2(1)] d by (simp add: call_ok_def)
  qed
qed

lemma replied_as_ok:
  assumes "target_contract pr rp ti" and "ti t" and "call_ok call" and "plain x"
    and "replied_as rp call x t t' call'"
  shows "ti t' \<and> call_ok call'"
proof (cases "call_internal call")
  case True
  obtain cb where cb: "rp cb (call_packet call) (data_packet x) t = Inr (t', [call'])"
    using assms(5) True by (cases call; cases "call_cb call") auto
  have d: "data_pkt (call_packet call)" "data_pkt (data_packet x)" using assms(3,4) by (simp_all add: call_ok_def)
  show ?thesis
    using target_contract.reply_inv [OF assms(1,2) d cb] target_contract.reply_calls [OF assms(1,2) d cb] by simp
next
  case False
  then have "t' = t \<and> call' = Internal_Response (data_packet x)"
    using assms(5) by (cases call; cases "call_cb call") auto
  then show ?thesis using assms(2,4) by (simp add: call_ok_def)
qed

lemma dialogue_inevitable:
  fixes s :: "('t, 'cb) sys"
  assumes "dialogue acks rp f t call t' pre q" and tc: "target_contract pr rp ti"
  shows "\<lbrakk>ti t; call_ok call; called t call out s;
      \<And>s. \<lbrakk>called t' (Internal_Response q) (out @ pre) s; ti t'; data_pkt q\<rbrakk> \<Longrightarrow> inevitable (orderly pr rp acks f g) P s\<rbrakk> \<Longrightarrow>
    inevitable (orderly pr rp acks f g) P s"
  using assms(1)
proof (induction arbitrary: out s rule: dialogue.induct)
  case (dlg_end t q)
  then show ?case by (simp add: call_ok_def)
next
  case (dlg_ask call t t1 call1 t' pre q)
  have ok: "ti t1" "call_ok call1"
    using replied_as_ok [OF tc dlg_ask.prems(1,2) dlg_ask.hyps(3,2)] by simp_all
  show ?case
  proof (rule ask_inevitable [where f = f, OF dlg_ask.hyps(1) dlg_ask.prems(2) dlg_ask.hyps(2) ok(2) dlg_ask.hyps(3) _ dlg_ask.prems(3)])
    fix s :: "('t, 'cb) sys"
    assume "called t1 call1 (out @ acks_passed acks call) s"
    from dlg_ask.IH [OF ok this] dlg_ask.prems(4)
    show "inevitable (orderly pr rp acks f g) P s" by simp
  qed
qed

text \<open>One exchange, from a packet of the client to what the client does when it has the answer.\<close>

lemma exchange_inevitable:
  fixes s :: "('t, 'cb) sys"
  assumes tc: "target_contract pr rp ti" and t: "ti t" and p: "plain p"
    and st: "stage t [] out [] [] [] ((if b then ''+'' else []) @ wire p) [] [] s"
    and h: "handled_as pr t p t1 call" and d: "dialogue acks rp f t1 call t' pre q"
    and goal: "\<And>s. \<lbrakk>stage t' [] (out @ pre @ [raw_data q]) [] [] [] (g (pkt_data q)) [] [] s; ti t'\<rbrakk>
      \<Longrightarrow> inevitable (orderly pr rp acks f g) P s"
  shows "inevitable (orderly pr rp acks f g) P s"
proof (rule client_sends [OF h _ p _ st])
  show ok: "call_ok call" using handled_as_ok [OF tc t p h] by simp
  have i: "ti t1" using handled_as_ok [OF tc t p h] by simp
  fix s :: "('t, 'cb) sys"
  assume c: "called t1 call out s"
  show "inevitable (orderly pr rp acks f g) P s"
  proof (rule dialogue_inevitable [where f = f, OF d tc i ok c])
    fix s :: "('t, 'cb) sys"
    assume a: "called t' (Internal_Response q) (out @ pre) s" and i: "ti t'" and q: "data_pkt q"
    show "inevitable (orderly pr rp acks f g) P s"
      by (rule answer_inevitable [OF q goal [OF _ i] a]) simp
  qed
qed

lemma conversation_inevitable:
  fixes s :: "('t, 'cb) sys"
  assumes "conversation pr rp acks f g t p t' outs" and tc: "target_contract pr rp ti"
  shows "\<lbrakk>ti t; plain p; stage t [] out [] [] [] ((if b then ''+'' else []) @ wire p) [] [] s\<rbrakk> \<Longrightarrow>
    inevitable (orderly pr rp acks f g) (settled t' (out @ outs) []) s"
  using assms(1)
proof (induction arbitrary: out b s rule: conversation.induct)
  case (conv_last t p t1 call t' pre q)
  show ?case
    by (rule exchange_inevitable [OF tc conv_last.prems conv_last.hyps(1,2)], rule resting_answered)
      (use conv_last.hyps(3) in simp_all)
next
  case (conv_more t p t1 call t' pre q b2 p' t'' outs)
  show ?case
  proof (rule exchange_inevitable [OF tc conv_more.prems conv_more.hyps(1,2)])
    fix s :: "('t, 'cb) sys"
    assume "stage t' [] (out @ pre @ [raw_data q]) [] [] [] (g (pkt_data q)) [] [] s" and i: "ti t'"
    then have "stage t' [] (out @ pre @ [raw_data q]) [] [] [] ((if b2 then ''+'' else []) @ wire p') [] [] s"
      using conv_more.hyps(3) by simp
    from conv_more.IH [OF i conv_more.hyps(4) this]
    show "inevitable (orderly pr rp acks f g) (settled t'' (out @ pre @ [raw_data q] @ outs) []) s" by simp
  qed
qed

text \<open>A packet that any target leaves alone.\<close>

lemma forward_inevitable:
  fixes s :: "('t, 'cb) sys"
  assumes "settled t out (wire p) s" and "plain p" and "plain (f p)" and "pr t (data_packet p) = Inr (t', [], False)"
    and "g (f p) \<in> {[], ''+''}"
  shows "inevitable (orderly pr rp acks f g)
    (settled t' (out @ (if acks then [''+''] else []) @ [wire (f p)]) []) s"
proof -
  let ?call = "Client_Request (data_packet p) None"
  have d: "data_pkt (data_packet p)" "data_pkt (data_packet (f p))" using assms(2,3) by simp_all
  have h: "handled_as pr t p t' ?call" using assms(4) by (simp add: handled_as_def)
  have st: "stage t [] out [] [] [] ((if False then ''+'' else []) @ wire p) [] [] s"
    using settled_stage [OF assms(1)] by simp
  show ?thesis
  proof (rule client_sends [OF h _ assms(2) _ st])
    show "call_ok ?call" using d by (simp add: call_ok_def)
    fix s :: "('t, 'cb) sys"
    assume a: "called t' ?call out s"
    show "inevitable (orderly pr rp acks f g) (settled t' (out @ (if acks then [''+''] else []) @ [wire (f p)]) []) s"
    proof (rule ask_inevitable [OF _ _ _ _ _ _ a])
      fix s :: "('t, 'cb) sys"
      assume a: "called t' (Internal_Response (data_packet (f p))) (out @ acks_passed acks ?call) s"
      show "inevitable (orderly pr rp acks f g) (settled t' (out @ (if acks then [''+''] else []) @ [wire (f p)]) []) s"
        by (rule answer_inevitable [OF d(2) _ a], rule resting_answered)
          (use assms(5) in \<open>cases acks; simp add: acks_passed_def\<close>)+
    qed (use d assms(3) in \<open>simp_all add: call_ok_def\<close>)
  qed
qed

end
