(* ===== verification/Mb_Behaviour.thy ===== *)
theory Mb_Behaviour
  imports Mb_Contract
begin

section \<open>What the FreeRTOS target does\<close>

text \<open>
  The functional behaviour of the target's handlers: reachable states, what a bypassed request
  leaves alone, the exchange of symbols, thread queries, thread numbers, the register list and
  the rewritten stop reply.
\<close>

subsection \<open>The state after construction\<close>

lemma add_current_fields [simp]:
  "m_rtos_avail (add_current_execution t) = m_rtos_avail t"
  "m_process_symbols (add_current_execution t) = m_process_symbols t"
  "m_conn (add_current_execution t) = m_conn t"
  "m_symbols (add_current_execution t) = m_symbols t"
  "m_threads_map (add_current_execution t) = m_threads_map t"
  by (simp_all add: add_current_execution_def Let_def)

lemma mb_new_fields:
  "m_rtos_avail (mb_new junk) = False" "m_process_symbols (mb_new junk) = False"
  "m_conn (mb_new junk) = []" "m_symbols (mb_new junk) = junk" "m_threads_map (mb_new junk) = []"
  by (simp_all add: mb_new_def make_empty_threading_def reset_threading_def Let_def)

subsection \<open>Reachable states\<close>

text \<open>
  Any sequence of requests and replies that the target survives, with the calls it has made.
\<close>

inductive mb_run :: "mb \<Rightarrow> mb_cb conn_call list \<Rightarrow> bool" where
  mb_start: "length junk = Symbol_Count \<Longrightarrow> mb_run (mb_new junk) []"
| mb_request: "mb_run t cs \<Longrightarrow> data_pkt pkt \<Longrightarrow> mb_process_request t pkt = Inr (t', cs', h)
    \<Longrightarrow> mb_run t' (cs @ cs')"
| mb_reply: "mb_run t cs \<Longrightarrow> data_pkt req \<Longrightarrow> data_pkt rep \<Longrightarrow> mb_on_reply cb req rep t = Inr (t', cs')
    \<Longrightarrow> mb_run t' (cs @ cs')"

lemma mb_run_inv: "mb_run t cs \<Longrightarrow> mb_inv t \<and> list_all call_ok cs"
proof (induction rule: mb_run.induct)
  case (mb_start junk)
  then show ?case by (simp add: mb_new_inv)
next
  case (mb_request t cs pkt t' cs' h)
  then show ?case
    using mb_target.request_inv mb_target.request_calls by fastforce
next
  case (mb_reply t cs req rep cb t' cs')
  then show ?case
    using mb_target.reply_inv mb_target.reply_calls by fastforce
qed

text \<open>C19: In every state the target can reach, RTOS support is on only if every required symbol
  has an address, the symbol being asked for is one of the table, no symbol is being asked for
  while support is on, and everything pushed to the connection is a complete data packet.\<close>

theorem mb_run_safe:
  assumes "mb_run t cs"
  shows "list_all call_ok cs \<and> (m_rtos_avail t \<longrightarrow> rtos_symbols_found (m_symbols t))
    \<and> (m_process_symbols t \<longrightarrow> m_current_symbol t < Symbol_Count \<and> \<not> m_rtos_avail t)"
  using mb_run_inv [OF assms] by (simp add: mb_inv_def)

theorem mb_run_safe_witness:
  "\<exists>t cs. mb_run t cs \<and> m_process_symbols t \<and> m_current_symbol t < Symbol_Count"
proof -
  let ?t0 = "mb_new (replicate 13 0)"
  have s: "mb_run ?t0 []" by (rule mb_run.mb_start) (simp add: Symbol_Count_def)
  have "process_request (data_packet ''qSymbol::'') (?t0\<lparr>m_conn := []\<rparr>) =
      handle_symbol_init (?t0\<lparr>m_conn := []\<rparr>)"
    by (simp add: process_request_def sv_index_def handle_query_packet_def)
  then have "\<exists>t' cs. mb_process_request ?t0 (data_packet ''qSymbol::'') = Inr (t', cs, True)
      \<and> m_process_symbols t'"
    by (simp add: mb_process_request_def handle_symbol_init_def request_symbol_eq Symbol_Count_def
        push_internal_response_def)
  then obtain t' cs where p: "mb_process_request ?t0 (data_packet ''qSymbol::'') = Inr (t', cs, True)"
    and m: "m_process_symbols t'" by blast
  have "mb_run t' ([] @ cs)" by (rule mb_run.mb_request [OF s _ p]) simp
  from mb_run_safe [OF this] this m show ?thesis by blast
qed

subsection \<open>Bypassed requests\<close>

lemma thread_extra_info_bypass: "thread_extra_info pkt t = Inr (t', False) \<Longrightarrow> t' = t"
  by (auto simp: thread_extra_info_def res_iff split: if_splits)

lemma first_thread_info_bypass: "first_thread_info t = Inr (t', False) \<Longrightarrow> t' = t"
  by (auto simp: first_thread_info_def res_iff split: if_splits)

lemma handle_symbol_handled:
  "handle_symbol_init t = Inr (t', h) \<Longrightarrow> h"
  "handle_symbol_reply pkt t = Inr (t', h) \<Longrightarrow> h"
  by (auto simp: handle_symbol_init_def handle_symbol_reply_def Let_def res_iff
      split: prod.splits if_splits)

text \<open>The chain of comparisons; none of them can fail.\<close>

lemma handle_query_packet_eq:
  "handle_query_packet pkt t =
     (let d = pkt_data pkt in
      if take 10 d = ''qSupported'' then Inr (push_request pkt (Some Cb_qSupported) t, True)
      else if take 17 d = ''qThreadExtraInfo,'' then thread_extra_info pkt t
      else if take 12 d = ''qfThreadInfo'' then first_thread_info t
      else if take 5 d = ''qCRC:'' then Inr (t, False)
      else if take 2 d = ''qC'' then
        (if \<not> m_rtos_avail t then Inr (t, False)
         else bind_res
           (push_client_reply (''QC'' @ tid_to_string (current_thread_id (m_threading t))) t)
           (\<lambda>t'. Inr (t', True)))
      else if d = ''qSymbol::'' then handle_symbol_init t
      else if take 8 d = ''qSymbol:'' \<and> m_process_symbols t then handle_symbol_reply pkt t
      else Inr (t, False))"
  unfolding handle_query_packet_def Let_def sv_compare_eq_0 bind_res_simps ..

lemma query_bypass:
  assumes "handle_query_packet pkt t = Inr (t', False)"
  shows "t' = t"
proof -
  have c: "handle_query_packet pkt t = Inr (t', False) \<Longrightarrow> thread_extra_info pkt t = Inr (t', False) \<or>
      first_thread_info t = Inr (t', False) \<or> handle_symbol_init t = Inr (t', False) \<or>
      handle_symbol_reply pkt t = Inr (t', False) \<or> t' = t"
    unfolding handle_query_packet_eq Let_def
    by (simp only: split: if_splits) (auto simp: res_iff)
  then show ?thesis
    using assms thread_extra_info_bypass first_thread_info_bypass handle_symbol_handled by blast
qed

text \<open>C32: A request the target does not handle, which the connection then forwards, has no
  effect but the selection of a thread: the target queues nothing and changes nothing else.\<close>

theorem bypass_is_pure:
  assumes "process_request pkt t = Inr (t', False)"
  shows "t' = t\<lparr>m_current_thread_id := m_current_thread_id t'\<rparr> \<and> m_conn t' = m_conn t"
  using process_request_cases [OF assms]
  by (auto simp: handle_stop_reply_packets_def handle_registers_request_def handle_thread_alive_def
      handle_set_thread_def get_thread_reg_list_def res_iff Let_def
      dest!: query_bypass split: if_splits)

theorem bypass_is_pure_witness:
  "process_request (data_packet ''Hgp1.1'') (mb_new (replicate 13 0)) =
     Inr (mb_new (replicate 13 0)\<lparr>m_current_thread_id := threadid_of_pid_tid 1 1\<rparr>, False)"
proof -
  let ?t = "mb_new (replicate 13 0)"
  have one: "parse_id ''1'' = 1" using parse_id_hex [of 1] by (simp add: hex_str.simps hex_digit_def)
  then have "threadid_of_string ''p1.1'' = Inr (threadid_of_pid_tid 1 1)"
    by (simp add: threadid_of_string_def threadid_of_pid_tid_def sv_index_def sv_find_def)
  moreover have "m_rtos_avail ?t = False" by (simp add: mb_new_fields)
  ultimately have "process_request (data_packet ''Hgp1.1'') ?t =
      Inr (?t\<lparr>m_current_thread_id := threadid_of_pid_tid 1 1\<rparr>, False)"
    by (simp add: process_request_def sv_index_def handle_set_thread_def sv_substr_def)
  from this bypass_is_pure [OF this] show ?thesis by simp
qed

end
