(* ===== verification/Mb_Stop.thy ===== *)
theory Mb_Stop
  imports Mb_Behaviour
begin

section \<open>Resume packets and stop replies\<close>

text \<open>
  Which packets the target holds back until the remote stops, and how the fields of a stop reply are
  rewritten.
\<close>

subsection \<open>Fields\<close>

text \<open>A list of fields, each closed by \<open>;\<close>, and the fields the client gets instead.\<close>

definition put_fields :: "string list \<Rightarrow> string" where
  "put_fields fs = concat (map (\<lambda>f. f @ '';'') fs)"

definition rewrite_field :: "string \<Rightarrow> string \<Rightarrow> string" where
  "rewrite_field tid_str f = (if take 7 f = ''thread:'' then ''thread:'' @ tid_str else f)"

lemma put_fields_simps [simp]:
  "put_fields [] = []" "put_fields (f # fs) = f @ '';'' @ put_fields fs"
  by (simp_all add: put_fields_def)

lemma plain_put_fields: "plain (put_fields fs) \<longleftrightarrow> (\<forall>f\<in>set fs. plain f)"
  by (induction fs) auto

lemma sv_find_field:
  assumes "CHR '';'' \<notin> set f"
  shows "sv_find (pre @ f @ CHR '';'' # s) (CHR '';'') (length pre) = Some (length pre + length f)"
proof -
  have "takeWhile (\<lambda>c. c \<noteq> CHR '';'') (f @ CHR '';'' # s) = f"
    using assms by (intro takeWhile_append_stop) auto
  then show ?thesis by (simp add: sv_find_def)
qed

lemma sv_find_none: "CHR '';'' \<notin> set s \<Longrightarrow> sv_find (pre @ s) (CHR '';'') (length pre) = None"
  by (simp add: sv_find_def)

text \<open>Seven characters that reach past the field hold its \<open>;\<close>.\<close>

lemma take_field:
  assumes "CHR '';'' \<notin> set f"
  shows "take 7 (f @ CHR '';'' # s) = ''thread:'' \<longleftrightarrow> take 7 f = ''thread:''"
proof (cases "7 \<le> length f")
  case False
  then have "CHR '';'' \<in> set (take 7 (f @ CHR '';'' # s))" by (simp add: take_Cons')
  moreover have "CHR '';'' \<notin> set ''thread:''" by simp
  moreover have "length (take 7 f) \<noteq> length ''thread:''" using False by simp
  ultimately show ?thesis by metis
qed simp

lemma rewrite_fields_spec:
  assumes "\<forall>f\<in>set fs. CHR '';'' \<notin> set f \<and> plain f" and "CHR '';'' \<notin> set rest"
    and "plain tid_str" and "plain s"
  shows "rewrite_fields tid_str (pre @ put_fields fs @ rest) (length pre) (open_packet s)
    = Inr (open_packet (s @ put_fields (map (rewrite_field tid_str) fs)))"
  using assms(1,4)
proof (induction fs arbitrary: pre s)
  case Nil
  with assms(2) show ?case by (subst rewrite_fields.simps) (simp add: sv_find_none)
next
  case (Cons f fs)
  let ?pre = "pre @ f @ '';''"
  let ?s = "s @ rewrite_field tid_str f @ '';''"
  from Cons.prems have f: "CHR '';'' \<notin> set f" "plain f" by simp_all
  have p: "pre @ put_fields (f # fs) @ rest = pre @ f @ CHR '';'' # put_fields fs @ rest" by simp
  have s': "plain ?s" using Cons.prems f assms(3) by (simp add: rewrite_field_def)
  have IH: "rewrite_fields tid_str (?pre @ put_fields fs @ rest) (length ?pre) (open_packet ?s)
      = Inr (open_packet (?s @ put_fields (map (rewrite_field tid_str) fs)))"
    by (rule Cons.IH) (use Cons.prems s' in simp_all)
  let ?all = "pre @ f @ CHR '';'' # put_fields fs @ rest"
  have c: "sv_compare_eq ?all (length pre) 7 ''thread:'' = Inr (take 7 f = ''thread:'')"
    using take_field [OF f(1), of "put_fields fs @ rest"]
    by (simp add: sv_compare_eq_def del: take_append)
  have sub: "sv_substr_n ?all (length pre) (length pre + length f - length pre + 1) = Inr (f @ '';'')"
    by (simp add: sv_substr_n_def)
  show ?case
    unfolding p using IH Cons.prems f assms(3)
    by (subst rewrite_fields.simps, cases "take 7 f = ''thread:''")
      (simp_all add: sv_find_field [OF f(1)] c sub [simplified] rewrite_field_def del: take_append)
qed

subsection \<open>The rewritten reply\<close>

definition stop_reply_for :: "string \<Rightarrow> string list \<Rightarrow> string \<Rightarrow> gdb_packet" where
  "stop_reply_for signal fs tid_str =
     data_packet (signal @ put_fields (map (rewrite_field tid_str) fs))"

abbreviation field_ok :: "string \<Rightarrow> bool" where
  "field_ok f \<equiv> CHR '';'' \<notin> set f \<and> plain f"

lemma plain_rewrite_field: "plain f \<Longrightarrow> plain s \<Longrightarrow> plain (rewrite_field s f)"
  by (simp add: rewrite_field_def)

lemma stop_reply_done_spec:
  assumes "pkt_data (m_stop_reply_response t) = signal @ put_fields fs @ rest"
    and "length signal = 3" and "plain signal" and "\<forall>f\<in>set fs. field_ok f" and "CHR '';'' \<notin> set rest"
  shows "stop_reply_done t = Inr
    ((push_internal_response (stop_reply_for signal fs (tid_to_string (m_current_thread_id t))) t)
      \<lparr>m_stop_reply_response := reset (m_stop_reply_response t)\<rparr>)"
proof -
  let ?tid = "tid_to_string (m_current_thread_id t)"
  let ?out = "signal @ put_fields (map (rewrite_field ?tid) fs)"
  have "rewrite_fields ?tid (put_fields fs @ rest) 0 (open_packet signal) = Inr (open_packet ?out)"
    using rewrite_fields_spec [OF assms(4,5), of ?tid signal "[]"] assms(3) by simp
  moreover have "plain ?out"
    using assms(3,4) by (auto simp: plain_put_fields intro!: plain_rewrite_field)
  ultimately show ?thesis
    using assms(1-3)
    by (simp add: stop_reply_done_def sv_substr_n_def sv_substr_def stop_reply_for_def
        push_internal_response_def Let_def)
qed

lemma fields_exist: "plain s \<Longrightarrow> \<exists>fs rest. s = put_fields fs @ rest \<and> (\<forall>f\<in>set fs. field_ok f) \<and> field_ok rest"
proof (induction "length s" arbitrary: s rule: less_induct)
  case less
  show ?case
  proof (cases "CHR '';'' \<in> set s")
    case False
    with less.prems show ?thesis by (intro exI [of _ "[]"] exI [of _ s]) simp
  next
    case True
    then obtain f s' where s: "s = f @ CHR '';'' # s'" and f: "CHR '';'' \<notin> set f"
      by (metis split_list_first)
    with less.prems have "length s' < length s" "plain s'" "plain f" by simp_all
    from less.hyps [OF this(1,2)] obtain fs rest where "s' = put_fields fs @ rest"
      "\<forall>f\<in>set fs. field_ok f" "field_ok rest" by blast
    with s f \<open>plain f\<close> show ?thesis by (intro exI [of _ "f # fs"] exI [of _ rest]) simp
  qed
qed

subsection \<open>Packets that resume the target\<close>

text \<open>C33: The \<open>v\<close> packets: one of less than six characters raises \<open>std::out_of_range\<close>, whatever it
  asks for; of the others \<open>vCont\<close> (but not \<open>vCont?\<close>), \<open>vAttach\<close>, \<open>vRun\<close> and \<open>vStopped\<close> are sent on by the
  target, which keeps their reply, and the rest is forwarded.\<close>

theorem v_packets:
  "process_request (data_packet (CHR ''v'' # d)) t =
    (if length d < 5 then Inl Out_Of_Range
     else if (d ! 4 \<noteq> CHR ''?'' \<and> take 4 d = ''Cont'') \<or> take 6 d = ''Attach'' \<or> take 3 d = ''Run''
       \<or> take 7 d = ''Stopped''
     then Inr (push_internal_request (data_packet (CHR ''v'' # d)) Cb_stop_reply t, True)
     else Inr (t, False))"
proof -
  have "process_request (data_packet (CHR ''v'' # d)) t =
    bind_res (v_packet_resumes (CHR ''v'' # d)) (\<lambda>b.
      if b then handle_stop_reply_packets (data_packet (CHR ''v'' # d)) t else Inr (t, False))"
    by (simp add: process_request_def sv_index_def)
  moreover have "v_packet_resumes (CHR ''v'' # d) =
    (if length d < 5 then Inl Out_Of_Range
     else Inr ((d ! 4 \<noteq> CHR ''?'' \<and> take 4 d = ''Cont'') \<or> take 6 d = ''Attach'' \<or> take 3 d = ''Run''
       \<or> take 7 d = ''Stopped''))"
    unfolding v_packet_resumes_def sv_at_def sv_compare_eq_def
    by (cases "length d < 5") (simp_all add: nth_Cons' )
  ultimately show ?thesis by (simp add: handle_stop_reply_packets_def)
qed

end
