(* ===== verification/Mb_Queries.thy ===== *)
theory Mb_Queries
  imports Mb_Behaviour
begin

section \<open>Thread numbers, thread queries and registers\<close>

text \<open>
  The numbers the target gives to threads, its answers to the client's thread packets, and the
  register list it makes from a saved context.
\<close>

subsection \<open>Thread numbers\<close>

lemma get_threadid_known:
  "smap_find tcb (m_threads_map t) = Some v \<Longrightarrow>
    get_threadid tcb u t = (make_threadid (scast v) t,
      t\<lparr>m_threads_map := (if u then smap_put tcb v (m_threads_map t) else m_threads_map t)\<rparr>)"
  by (simp add: get_threadid_def Let_def make_threadid_pid_def)

lemma get_threadid_unknown:
  "smap_find tcb (m_threads_map t) = None \<Longrightarrow>
    get_threadid tcb u t =
     (let (m, s) = scan_ids (m_threads_map t) 2
      in (make_threadid (scast (s + 1)) t,
          t\<lparr>m_threads_map := (if u then smap_put tcb (s + 1) m else m)\<rparr>))"
  by (simp add: get_threadid_def Let_def make_threadid_pid_def THREAD_ID_CURRENT_EXECUTION_def
      split: prod.split)

lemma smap_put_same: "smap_ok m \<Longrightarrow> smap_find k m = Some v \<Longrightarrow> smap_put k v m = m"
proof (induction k v m rule: smap_put.induct)
  case (2 k v k' v' m)
  show ?case
  proof (cases "k = k'")
    case False
    with 2 have "smap_find k m = Some v" "smap_ok m"
      by (auto simp: smap_find_def smap_ok_def)
    moreover from this have "k \<in> fst ` set m"
      by (force simp: smap_find_def dest: map_of_SomeD)
    with 2 False have "\<not> k < k'" by (auto simp: smap_ok_def)
    ultimately show ?thesis using 2 False by simp
  qed (use 2 in \<open>simp add: smap_find_def\<close>)
qed (simp add: smap_find_def)

text \<open>Asking again for a thread whose number has been recorded gives the same number and
  changes nothing, so the number of a thread is stable until another thread is first seen or the
  thread leaves the map.\<close>

theorem get_threadid_stable:
  assumes "smap_ok (m_threads_map t)"
  shows "get_threadid tcb u (snd (get_threadid tcb True t)) = get_threadid tcb True t"
proof (cases "smap_find tcb (m_threads_map t)")
  case None
  obtain m s where sc: "scan_ids (m_threads_map t) 2 = (m, s)" by fastforce
  with smap_ok_scan [OF assms, of 2] have m: "smap_ok m" by simp
  let ?m = "smap_put tcb (s + 1) m"
  have "smap_find tcb ?m = Some (s + 1)" using smap.find_put [OF m] by simp
  moreover have "smap_put tcb (s + 1) ?m = ?m"
    using smap_put_same [OF smap_ok_put [OF m]] smap.find_put [OF m] by simp
  ultimately show ?thesis
    using None sc
    by (simp add: get_threadid_unknown get_threadid_known make_threadid_pid_def)
next
  case (Some v)
  with assms show ?thesis
    by (simp add: get_threadid_known smap_put_same)
qed

theorem get_threadid_stable_witness:
  "get_threadid 0x1000 False (snd (get_threadid 0x1000 True (mb_new (replicate 13 0))))
     = get_threadid 0x1000 True (mb_new (replicate 13 0))"
  by (rule get_threadid_stable) (simp add: mb_new_fields smap_ok_def)

text \<open>C20: Two threads share a number. The first thread met after start-up is recorded as number 3;
  the second one, instead of getting the unused number 2, has 2 written into the entry of the
  first and is itself given 3. What was reported for the first thread so far now names the
  second.\<close>

theorem threadid_collision:
  assumes "m_threads_map t = []" and "a \<noteq> b"
  shows "(let (ida, ta) = get_threadid a True t;
              (idb, tb) = get_threadid b True ta;
              (ida', tc) = get_threadid a False tb
          in m_threadid ida = 3 \<and> ida = idb \<and> m_threadid ida' = 2)"
proof -
  have a: "get_threadid a True t = (make_threadid 3 t, t\<lparr>m_threads_map := [(a, 3)]\<rparr>)"
    using assms(1) by (simp add: get_threadid_unknown smap_find_def)
  let ?ta = "t\<lparr>m_threads_map := [(a, 3)]\<rparr>"
  have b: "get_threadid b True ?ta =
      (make_threadid 3 ?ta, t\<lparr>m_threads_map := smap_put b 3 [(a, 2)]\<rparr>)"
    using assms(2) by (simp add: get_threadid_unknown smap_find_def)
  have "smap_find a (smap_put b 3 [(a, 2 :: u32)]) = Some 2"
    using assms(2) by (simp add: smap_find_def)
  then have "get_threadid a False (t\<lparr>m_threads_map := smap_put b 3 [(a, 2)]\<rparr>) =
      (make_threadid 2 t, t\<lparr>m_threads_map := smap_put b 3 [(a, 2)]\<rparr>)"
    by (simp add: get_threadid_known make_threadid_pid_def)
  then show ?thesis using a b by (simp add: make_threadid_pid_def)
qed

theorem threadid_collision_witness:
  "(let (ida, ta) = get_threadid 0x1000 True (mb_new (replicate 13 0));
        (idb, tb) = get_threadid 0x2000 True ta;
        (ida', tc) = get_threadid 0x1000 False tb
    in m_threadid ida = 3 \<and> ida = idb \<and> m_threadid ida' = 2)"
  by (rule threadid_collision) (simp_all add: mb_new_fields)

subsection \<open>Thread queries\<close>

fun join_comma :: "string list \<Rightarrow> string" where
  "join_comma [] = []"
| "join_comma [s] = s"
| "join_comma (s # ss) = s @ '','' @ join_comma ss"

lemma put_thread_ids_rest:
  "plain s \<Longrightarrow> put_thread_ids False infos (open_packet s) = Inr (open_packet
     (s @ concat (map (\<lambda>i. '','' @ tid_to_string (thread_id i)) infos)))"
  by (induction infos arbitrary: s) auto

lemma join_comma_Cons: "join_comma (s # ss) = s @ concat (map (\<lambda>s. '','' @ s) ss)"
  by (induction ss arbitrary: s) auto

lemma put_thread_ids_join:
  "plain s \<Longrightarrow> put_thread_ids True infos (open_packet s) =
     Inr (open_packet (s @ join_comma (map (tid_to_string \<circ> thread_id) infos)))"
proof (cases infos)
  case (Cons i infos')
  assume "plain s"
  moreover have "concat (map (\<lambda>i. '','' @ tid_to_string (thread_id i)) infos')
      = concat (map ((\<lambda>s. '','' @ s) \<circ> (tid_to_string \<circ> thread_id)) infos')"
    by (simp add: comp_def)
  ultimately show ?thesis
    unfolding Cons by (simp add: put_thread_ids_rest join_comma_Cons comp_def)
qed simp

lemma plain_join: "\<forall>s\<in>set ss. plain s \<Longrightarrow> plain (join_comma ss)"
  by (induction ss rule: join_comma.induct) auto

text \<open>C30: The first thread query is answered, when RTOS support is on, with \<open>m\<close> and the numbers of
  all known threads, in the order they were found and separated by commas; with an empty packet
  when none is known. Only a thread count so large that the buffer cannot be reserved makes it
  fail. Without RTOS support the query is forwarded.\<close>

theorem thread_list_reply:
  "process_request (data_packet (''qfThreadInfo'' @ s)) t =
    (if \<not> m_rtos_avail t then Inr (t, False)
     else if threads_count (m_threading t) = 0
     then Inr (push_internal_response (data_packet []) t, True)
     else if int (unat (20 * threads_count (m_threading t))) > vector_max_size then Inl Length_Error
     else Inr (push_internal_response (data_packet
         (''m'' @ join_comma (map (tid_to_string \<circ> thread_id) (t_info (m_threading t))))) t, True))"
proof -
  have "process_request (data_packet (''qfThreadInfo'' @ s)) t =
      handle_query_packet (data_packet (''qfThreadInfo'' @ s)) t"
    by (simp add: process_request_def sv_index_def)
  also have "\<dots> = first_thread_info t" by (simp add: handle_query_packet_eq)
  finally show ?thesis
    using put_thread_ids_join [of "''m''" "t_info (m_threading t)"]
      plain_join [of "map (tid_to_string \<circ> thread_id) (t_info (m_threading t))"]
    by (simp add: first_thread_info_def)
qed

text \<open>The pseudo-thread number 1, with process 1 where one is given.\<close>

abbreviation names_execution :: "threadid \<Rightarrow> bool" where
  "names_execution tid \<equiv> m_threadid tid = 1 \<and> (m_multiprocess tid \<longrightarrow> m_process tid = 1)"

lemma tid_eq_execution:
  "tid_eq tid (make_threadid THREAD_ID_CURRENT_EXECUTION t) \<longleftrightarrow> names_execution tid"
  by (auto simp: tid_eq_def make_threadid_pid_def THREAD_ID_CURRENT_EXECUTION_def)

text \<open>The thread-alive query about a thread of the protocol is forwarded without RTOS support or
  when it is about the current execution; otherwise the client is told \<open>OK\<close> exactly when the last
  update met a thread with that number, all of whose data it had read.\<close>

theorem thread_alive_reply:
  assumes "tid_valid tid"
  shows "process_request (data_packet (''T'' @ tid_to_string tid)) t =
    (if \<not> m_rtos_avail t \<or> names_execution tid then Inr (t, False)
     else Inr (push_internal_response (data_packet
       (if threads_count (m_threading t) \<noteq> 0 \<and>
           (\<exists>info\<in>set (t_info (m_threading t)). tid_eq (thread_id info) tid \<and> ti_exists info)
        then ''OK'' else ''E01'')) t, True))"
proof -
  have "process_request (data_packet (''T'' @ tid_to_string tid)) t =
      handle_thread_alive (data_packet (''T'' @ tid_to_string tid)) t"
    by (simp add: process_request_def sv_index_def)
  then show ?thesis
    by (simp add: handle_thread_alive_def sv_substr_def threadid_roundtrip_aux [OF assms]
        tid_eq_execution list_ex_iff Let_def)
qed

theorem thread_alive_reply_witness:
  "process_request (data_packet ''Tp1.1'') (mb_new (replicate 13 0))
     = Inr (mb_new (replicate 13 0), False)"
proof -
  have v: "tid_valid (threadid_of_pid_tid 1 1)" by code_simp
  have s: "tid_to_string (threadid_of_pid_tid 1 1) = ''p1.1''" by code_simp
  from thread_alive_reply [OF v, unfolded s, of "mb_new (replicate 13 0)"] show ?thesis
    by (simp add: mb_new_fields)
qed

text \<open>\<open>Hg\<close> always selects the thread it names. The client is answered by the target itself if RTOS
  support is on and the thread is not the current execution; no thread needs to exist for that.
  Otherwise the packet is forwarded.\<close>

theorem set_thread_reply:
  assumes "tid_valid tid"
  shows "process_request (data_packet (''Hg'' @ tid_to_string tid)) t =
    (let t' = t\<lparr>m_current_thread_id := tid\<rparr>
     in if names_execution tid \<or> \<not> m_rtos_avail t then Inr (t', False)
        else Inr (push_internal_response (data_packet ''OK'') t', True))"
proof -
  have "process_request (data_packet (''Hg'' @ tid_to_string tid)) t =
      handle_set_thread (data_packet (''Hg'' @ tid_to_string tid)) t"
    by (simp add: process_request_def sv_index_def)
  then show ?thesis
    by (simp add: handle_set_thread_def sv_substr_def sv_index_def threadid_roundtrip_aux [OF assms]
        tid_eq_execution Let_def)
qed

theorem set_thread_reply_witness:
  "process_request (data_packet ''Hgp1.3'') ((mb_new (replicate 13 0))\<lparr>m_rtos_avail := True\<rparr>)
     = Inr (push_internal_response (data_packet ''OK'')
         ((mb_new (replicate 13 0))\<lparr>m_rtos_avail := True, m_current_thread_id := threadid_of_pid_tid 1 3\<rparr>), True)"
proof -
  have v: "tid_valid (threadid_of_pid_tid 1 3)" by code_simp
  have s: "tid_to_string (threadid_of_pid_tid 1 3) = ''p1.3''" by code_simp
  from set_thread_reply [OF v, unfolded s, of "(mb_new (replicate 13 0))\<lparr>m_rtos_avail := True\<rparr>"]
  show ?thesis by (simp add: threadid_of_pid_tid_def)
qed

text \<open>C31: A query for the description of a thread other than the current execution is answered,
  when RTOS support is on and threads are known, with the hexadecimal text of the name and the
  state of the first thread with that number, or with an error if there is none.\<close>

theorem extra_info_reply:
  assumes "tid_valid tid" and "\<not> names_execution tid"
  shows "process_request (data_packet (''qThreadExtraInfo,'' @ tid_to_string tid)) t =
    (if \<not> m_rtos_avail t \<or> threads_count (m_threading t) = 0 then Inr (t, False)
     else Inr (push_internal_response (data_packet
       (case find (\<lambda>info. tid_eq tid (thread_id info)) (t_info (m_threading t)) of
          None \<Rightarrow> ''E01''
        | Some info \<Rightarrow> bin2hex (map ord8
            ((if ti_name info = [] then [] else ''Name: '' @ ti_name info)
             @ (if ti_name info \<noteq> [] \<and> ti_extra info \<noteq> [] then '', '' else [])
             @ ti_extra info)) [])) t, True))"
proof -
  let ?p = "data_packet (''qThreadExtraInfo,'' @ tid_to_string tid)"
  have "process_request ?p t = handle_query_packet ?p t"
    by (simp add: process_request_def sv_index_def)
  also have "\<dots> = thread_extra_info ?p t" by (simp add: handle_query_packet_eq)
  finally have 1: "process_request ?p t = thread_extra_info ?p t" .
  have e: "tid_eq tid (make_threadid THREAD_ID_CURRENT_EXECUTION t) = False"
    using assms(2) tid_eq_execution by blast
  have 2: "extra_info_text info = (if ti_name info = [] then [] else ''Name: '' @ ti_name info)
      @ (if ti_name info \<noteq> [] \<and> ti_extra info \<noteq> [] then '', '' else []) @ ti_extra info" for info
    by (simp add: extra_info_text_def)
  show ?thesis
    unfolding 1 2 [symmetric]
    by (simp add: thread_extra_info_def sv_substr_def e threadid_roundtrip_aux [OF assms(1)] split: option.split)
qed

theorem extra_info_reply_witness:
  "process_request (data_packet ''qThreadExtraInfo,p1.3'') (mb_new (replicate 13 0))
     = Inr (mb_new (replicate 13 0), False)"
proof -
  have v: "tid_valid (threadid_of_pid_tid 1 3)" by code_simp
  have s: "tid_to_string (threadid_of_pid_tid 1 3) = ''p1.3''" by code_simp
  have n: "\<not> names_execution (threadid_of_pid_tid 1 3)" by (simp add: threadid_of_pid_tid_def)
  from extra_info_reply [OF v n, unfolded s, of "mb_new (replicate 13 0)"] show ?thesis
    by (simp add: mb_new_fields)
qed

end
