(* ===== verification/Mb_Walk.thy ===== *)
theory Mb_Walk
  imports Mb_Stop Mb_Queries
begin

section \<open>The thread update against a memory\<close>

text \<open>
  The whole sequence of reads, driven by a remote that answers memory reads from a memory. The
  reference is the walk over the task lists as a function of the memory; nothing is assumed about
  the memory's contents, so it may hold damaged or cyclic lists.
\<close>

subsection \<open>Memory and the remote\<close>

type_synonym memory = "u64 \<Rightarrow> byte"

definition mem_bytes :: "memory \<Rightarrow> u64 \<Rightarrow> nat \<Rightarrow> byte list" where
  "mem_bytes mem a n = map (\<lambda>i. mem (a + of_nat i)) [0..<n]"

definition mem_word :: "memory \<Rightarrow> u64 \<Rightarrow> u64" where
  "mem_word mem a = le_value (mem_bytes mem a 4)"

text \<open>The remote is not part of the program; this is what its \<open>m\<close> packet is documented to do.\<close>

definition answers_reads :: "memory \<Rightarrow> (gdb_packet \<Rightarrow> gdb_packet) \<Rightarrow> bool" where
  "answers_reads mem remote =
     (\<forall>a n. remote (data_packet (read_req_text a n)) = data_packet (bin2hex (mem_bytes mem a (unat n)) []))"

text \<open>The remote answers the one outstanding request until there is none, or the fuel is used up.\<close>

fun serve :: "nat \<Rightarrow> (gdb_packet \<Rightarrow> gdb_packet) \<Rightarrow> mb \<Rightarrow> mb res" where
  "serve 0 remote t = Inr t"
| "serve (Suc n) remote t =
     (case m_conn t of
        [Internal_Request p (Some cb)] \<Rightarrow>
          bind_res (run_callback cb p (remote p) (t\<lparr>m_conn := []\<rparr>)) (serve n remote)
      | _ \<Rightarrow> Inr t)"

text \<open>\<open>X\<close> gets to \<open>Y\<close> after some number of answers.\<close>

definition reaches :: "(gdb_packet \<Rightarrow> gdb_packet) \<Rightarrow> mb res \<Rightarrow> mb res \<Rightarrow> bool" where
  "reaches remote X Y = (\<exists>k. \<forall>n. bind_res X (serve (k + n) remote) = bind_res Y (serve n remote))"

lemma reaches_refl [intro]: "reaches remote X X"
  unfolding reaches_def by (rule exI [of _ 0]) simp

lemma reaches_trans [trans]:
  assumes "reaches remote X Y" and "reaches remote Y Z"
  shows "reaches remote X Z"
proof -
  from assms obtain j k where "\<And>n. bind_res X (serve (j + n) remote) = bind_res Y (serve n remote)"
    and "\<And>n. bind_res Y (serve (k + n) remote) = bind_res Z (serve n remote)"
    unfolding reaches_def by blast
  then have "bind_res X (serve ((j + k) + n) remote) = bind_res Z (serve n remote)" for n
    by (simp add: add.assoc)
  then show ?thesis unfolding reaches_def by blast
qed

lemma eq_reaches [trans]: "X = Y \<Longrightarrow> reaches remote Y Z \<Longrightarrow> reaches remote X Z"
  by simp

lemma reaches_eq [trans]: "reaches remote X Y \<Longrightarrow> Y = Z \<Longrightarrow> reaches remote X Z"
  by simp

subsection \<open>Sizes\<close>

abbreviation addr32 :: "u64 \<Rightarrow> bool" where
  "addr32 a \<equiv> unat a < 2 ^ 32"

lemma unat_add_le: "unat (a + b :: u64) \<le> unat a + unat b"
  by (simp add: unat_word_ariths)

lemma unat_mult_le: "unat (a * b :: u64) \<le> unat a * unat b"
  by (simp add: unat_word_ariths)

lemma le_value_bound: "unat (le_value bs) < 2 ^ (8 * length bs)"
proof (induction bs)
  case (Cons b bs)
  have b: "unat b < 2 ^ LENGTH(8)" by (rule unsigned_less)
  have u: "unat (ucast b :: u64) \<le> unat b" by (simp add: unsigned_ucast_eq)
  have "unat (ucast b + 256 * le_value bs :: u64) \<le> unat (ucast b :: u64) + unat (256 * le_value bs)"
    by (rule unat_add_le)
  also have "\<dots> \<le> unat b + 256 * unat (le_value bs)"
    using unat_mult_le [of 256 "le_value bs"] u by (intro add_mono) simp_all
  also have "\<dots> < 256 * 2 ^ (8 * length bs)" using b Cons by simp
  also have "\<dots> = 2 ^ (8 * length (b # bs))" by (simp add: power_add)
  finally show ?case by simp
qed simp

lemma mem_word_bound: "addr32 (mem_word mem a)"
  using le_value_bound [of "mem_bytes mem a 4"] by (simp add: mem_word_def mem_bytes_def)

lemmas mem_word_small [simp] = mem_word_bound [simplified]

text \<open>Every address the walk reads needs at most ten digits, so its request fits the buffer.\<close>

lemma read_req_walk:
  assumes "unat a < 2 ^ 40" and "unat n \<le> 10"
  shows "gdb_memory_read_req a n = Inr (data_packet (read_req_text a n))"
proof -
  have "length (hex_str (unat a)) \<le> 10" "length (hex_str (unat n)) \<le> 1"
    using assms by (intro length_hex_str_le; simp)+
  then show ?thesis by (intro read_req_fits) (simp add: length_read_req_text)
qed

lemma offset_small: "unat a < 2 ^ 39 \<Longrightarrow> unat b < 2 ^ 38 \<Longrightarrow> unat (a + b :: u64) < 2 ^ 40"
  using unat_add_le [of a b] by simp

subsection \<open>One read\<close>

lemma reaches_read:
  assumes "answers_reads mem remote" and "m_conn t = []" and "unat a < 2 ^ 40" and "unat n \<le> 10"
  shows "reaches remote (read_memory a n cb t)
    (run_callback cb (data_packet (read_req_text a n)) (data_packet (bin2hex (mem_bytes mem a (unat n)) [])) t)"
proof -
  have same: "t\<lparr>m_conn := []\<rparr> = t" using assms(2) by (cases t) simp
  have "bind_res (read_memory a n cb t) (serve (1 + k) remote)
    = bind_res (run_callback cb (data_packet (read_req_text a n))
        (data_packet (bin2hex (mem_bytes mem a (unat n)) [])) t) (serve k remote)" for k
    using assms read_req_walk [OF assms(3,4)]
    by (simp add: read_memory_def push_internal_request_def answers_reads_def same)
  then show ?thesis unfolding reaches_def by blast
qed

lemma reply_word [simp]:
  "gdb_memory_read_reply (data_packet (bin2hex (mem_bytes mem a 4) [])) = mem_word mem a"
  by (simp add: mem_word_def mem_bytes_def read_reply_value)

subsection \<open>The reference walk\<close>

text \<open>Numbering, as a function of the map alone.\<close>

definition assign_id :: "bool \<Rightarrow> u64 \<Rightarrow> (u64, u32) smap \<Rightarrow> threadid \<times> (u64, u32) smap" where
  "assign_id mp tcb m =
     (let tid = (\<lambda>v :: u32. \<lparr>m_multiprocess = mp, m_process = 1, m_threadid = scast v\<rparr>) in
      case smap_find tcb m of
        Some v \<Rightarrow> (tid v, smap_put tcb v m)
      | None \<Rightarrow> let (m', s) = scan_ids m 2 in (tid (s + 1), smap_put tcb (s + 1) m'))"

definition task_name :: "memory \<Rightarrow> u64 \<Rightarrow> string" where
  "task_name mem tcb =
     (let cs = takeWhile (\<lambda>b. b \<noteq> 0) (mem_bytes mem (tcb + 52) 10)
      in if cs = [] then ''No Name'' else map chr8 cs)"

definition task_info :: "memory \<Rightarrow> u64 \<Rightarrow> u64 \<Rightarrow> threadid \<Rightarrow> thread_info" where
  "task_info mem cur tcb tid =
     \<lparr>thread_tcb = tcb, thread_id = tid, ti_exists = True, ti_name = task_name mem tcb,
      ti_extra = (if cur = tcb then ''State: Running'' else [])\<rparr>"

fun name_tasks ::
  "bool \<Rightarrow> memory \<Rightarrow> u64 \<Rightarrow> u64 list \<Rightarrow> (u64, u32) smap \<Rightarrow> thread_info list \<times> (u64, u32) smap" where
  "name_tasks mp mem cur [] m = ([], m)"
| "name_tasks mp mem cur (tcb # tcbs) m =
     (let (tid, m1) = assign_id mp tcb m; (infos, m2) = name_tasks mp mem cur tcbs m1
      in (task_info mem cur tcb tid # infos, m2))"

text \<open>The control blocks on a list: at most the recorded length, up to a null or repeated link.\<close>

fun walk_elems :: "memory \<Rightarrow> nat \<Rightarrow> u64 \<Rightarrow> u64 \<Rightarrow> u64 list" where
  "walk_elems mem 0 p prev = []"
| "walk_elems mem (Suc n) p prev =
     (if p = 0 \<or> p = prev then []
      else mem_word mem (p + 12) # walk_elems mem n (mem_word mem (p + 8)) p)"

definition list_tasks :: "memory \<Rightarrow> u64 \<Rightarrow> u64 list" where
  "list_tasks mem a =
     (if a = 0 then [] else walk_elems mem (unat (mem_word mem a)) (mem_word mem (a + 16)) (- 1))"

lemma name_tasks_append:
  "name_tasks mp mem cur (xs @ ys) m =
     (let (is1, m1) = name_tasks mp mem cur xs m; (is2, m2) = name_tasks mp mem cur ys m1
      in (is1 @ is2, m2))"
  by (induction xs arbitrary: m) (auto split: prod.splits)

lemma get_threadid_assign:
  "get_threadid tcb True t =
     (let (tid, m) = assign_id (mb_multiprocess t) tcb (m_threads_map t) in (tid, t\<lparr>m_threads_map := m\<rparr>))"
  by (cases "smap_find tcb (m_threads_map t)")
    (simp_all add: get_threadid_known get_threadid_unknown assign_id_def make_threadid_pid_def
      Let_def split: prod.split)

subsection \<open>States of the walk\<close>

definition walking :: "mb \<Rightarrow> thread_list list \<Rightarrow> nat \<Rightarrow> thread_info list \<Rightarrow> (u64, u32) smap \<Rightarrow> mb" where
  "walking t ls i infos m =
     t\<lparr>m_threading := (m_threading t)\<lparr>t_lists := ls, list_it := Some (lists_gen t, i), t_info := infos\<rparr>,
       m_threads_map := m\<rparr>"

lemma walking_fields [simp]:
  "m_conn (walking t ls i infos m) = m_conn t"
  "lists_gen (walking t ls i infos m) = lists_gen t"
  "info_gen (walking t ls i infos m) = info_gen t"
  "mb_multiprocess (walking t ls i infos m) = mb_multiprocess t"
  "m_threads_map (walking t ls i infos m) = m"
  "t_lists (m_threading (walking t ls i infos m)) = ls"
  "t_info (m_threading (walking t ls i infos m)) = infos"
  "list_it (m_threading (walking t ls i infos m)) = Some (lists_gen t, i)"
  "current_thread_tcb (m_threading (walking t ls i infos m)) = current_thread_tcb (m_threading t)"
  by (simp_all add: walking_def)

lemma walking_updates [simp]:
  "(walking t ls i infos m)\<lparr>m_threads_map := m'\<rparr> = walking t ls i infos m'"
  "(walking t ls i infos m)\<lparr>m_threading := m_threading (walking t ls i infos m)\<lparr>t_lists := ls'\<rparr>\<rparr>
     = walking t ls' i infos m"
  "(walking t ls i infos m)\<lparr>m_threading := m_threading (walking t ls i infos m)\<lparr>t_info := infos'\<rparr>\<rparr>
     = walking t ls i infos' m"
  "(walking t ls i infos m)\<lparr>m_threading := m_threading (walking t ls i infos m)
       \<lparr>list_it := Some (lists_gen t, j)\<rparr>\<rparr> = walking t ls j infos m"
  by (simp_all add: walking_def)

lemma current_list_walking [simp]:
  "i < length ls \<Longrightarrow> current_list (walking t ls i infos m) = Inr ((lists_gen t, i), ls ! i)"
  by (simp add: current_list_def deref_list_def)

lemma update_list_walking [simp]:
  "j < length ls \<Longrightarrow> update_list (lists_gen t, j) f (walking t ls i infos m)
     = Inr (walking t (ls[j := f (ls ! j)]) i infos m)"
  by (simp add: update_list_def deref_list_def)

lemma advance_list_walking [simp]:
  "i < length ls \<Longrightarrow> advance_list (walking t ls i infos m) = Inr (walking t ls (Suc i) infos m)"
  by (simp add: advance_list_def)

lemma get_threadid_walking [simp]:
  "get_threadid tcb True (walking t ls i infos m) =
     (let (tid, m') = assign_id (mb_multiprocess t) tcb m in (tid, walking t ls i infos m'))"
  by (simp add: get_threadid_assign)

subsection \<open>One element\<close>

lemma read_name:
  "(let bin = fst (hex2bin_vec 1 (bin2hex bs []) []) @ [0]
    in if hd bin = 0 then ''No Name'' else map chr8 (takeWhile (\<lambda>b. b \<noteq> 0) bin))
   = (let cs = takeWhile (\<lambda>b. b \<noteq> 0) bs in if cs = [] then ''No Name'' else map chr8 cs)"
proof -
  have 1: "hex2bin_vec 1 (bin2hex bs []) [] = (bs, length bs)" by (simp add: hex2bin_vec_def)
  have 2: "takeWhile (\<lambda>b. b \<noteq> 0) (bs @ [0 :: byte]) = takeWhile (\<lambda>b. b \<noteq> 0) bs"
    by (induction bs) auto
  have 3: "hd (bs @ [0 :: byte]) = 0 \<longleftrightarrow> takeWhile (\<lambda>b. b \<noteq> 0) bs = []" by (cases bs) auto
  show ?thesis unfolding 1 fst_conv Let_def 2 3 ..
qed

lemma cb_elem_name_walking:
  assumes "pkt_data rep = bin2hex (mem_bytes mem (tcb + 52) 10) []"
  shows "cb_elem_name (info_gen t, length infos) rep
      (walking t ls i (infos @ [thread_info_default\<lparr>thread_tcb := tcb, thread_id := tid\<rparr>]) m)
    = get_list_elem_next (walking t ls i
        (infos @ [task_info mem (current_thread_tcb (m_threading t)) tcb tid]) m)"
proof -
  let ?i0 = "thread_info_default\<lparr>thread_tcb := tcb, thread_id := tid\<rparr>"
  let ?w = "walking t ls i (infos @ [?i0]) m"
  have d: "deref_info (info_gen t, length infos) ?w = Inr ?i0" by (simp add: deref_info_def)
  note name = read_name [of "mem_bytes mem (tcb + 52) 10", unfolded Let_def, folded assms]
  show ?thesis
    unfolding cb_elem_name_def d bind_res_simps Let_def name
    by (cases "current_thread_tcb (m_threading t) = tcb")
      (simp_all add: task_info_def task_name_def thread_info_default_def Let_def)
qed

lemma elem_step:
  assumes "answers_reads mem remote" and "m_conn t = []" and "i < length ls"
    and "tl_count (ls ! i) \<noteq> 0" and "list_elem_ptr (ls ! i) = p" and "p \<noteq> 0"
    and "p \<noteq> list_elem_ptr_prev (ls ! i)" and "addr32 p"
    and "assign_id (mb_multiprocess t) (mem_word mem (p + 12)) m = (tid, m')"
  shows "reaches remote (get_list_elem_thread_id (walking t ls i infos m))
    (get_list_elem_thread_id (walking t
      (ls[i := (ls ! i)\<lparr>tl_count := tl_count (ls ! i) - 1, list_elem_ptr_prev := p,
                       list_elem_ptr := mem_word mem (p + 8)\<rparr>]) i
      (infos @ [task_info mem (current_thread_tcb (m_threading t)) (mem_word mem (p + 12)) tid]) m'))"
proof -
  let ?tcb = "mem_word mem (p + 12)"
  let ?i0 = "thread_info_default\<lparr>thread_tcb := ?tcb, thread_id := tid\<rparr>"
  let ?infos = "infos @ [task_info mem (current_thread_tcb (m_threading t)) ?tcb tid]"
  let ?ls = "ls[i := (ls ! i)\<lparr>tl_count := tl_count (ls ! i) - 1\<rparr>]"
  have p12: "unat (p + 12) < 2 ^ 40" and p8: "unat (p + 8) < 2 ^ 40"
    using assms(8) offset_small [of p 12] offset_small [of p 8] by simp_all
  have t52: "unat (?tcb + 52) < 2 ^ 40"
    by (rule offset_small [OF order.strict_trans [OF mem_word_bound]]) simp_all
  have "get_list_elem_thread_id (walking t ls i infos m)
      = read_memory (p + 12) 4 Cb_elem_thread_id (walking t ls i infos m)"
    using assms(3-7) by (simp add: get_list_elem_thread_id_def mb_constants)
  also have "reaches remote \<dots> (cb_elem_thread_id ?tcb (walking t ls i infos m))"
    using reaches_read [OF assms(1) _ p12, of "walking t ls i infos m" 4 Cb_elem_thread_id] assms(2)
    by (simp add: run_callback_def)
  also have "cb_elem_thread_id ?tcb (walking t ls i infos m)
      = read_memory (?tcb + 52) 10 (Cb_elem_name (info_gen t, length infos))
          (walking t ls i (infos @ [?i0]) m')"
    using assms(9)
    by (simp add: cb_elem_thread_id_def get_list_elem_thread_name_def mb_constants)
  also have "reaches remote \<dots> (get_list_elem_next (walking t ls i ?infos m'))"
    using reaches_read [OF assms(1) _ t52, of "walking t ls i (infos @ [?i0]) m'" 10
        "Cb_elem_name (info_gen t, length infos)"] assms(2)
    by (simp add: run_callback_def cb_elem_name_walking)
  also have "get_list_elem_next (walking t ls i ?infos m')
      = read_memory (p + 8) 4 (Cb_elem_next (lists_gen t, i)) (walking t ?ls i ?infos m')"
    using assms(3,5) by (simp add: get_list_elem_next_def mb_constants)
  also have "reaches remote \<dots>
      (cb_elem_next (lists_gen t, i) (mem_word mem (p + 8)) (walking t ?ls i ?infos m'))"
    using reaches_read [OF assms(1) _ p8, of "walking t ?ls i ?infos m'" 4 "Cb_elem_next (lists_gen t, i)"]
      assms(2)
    by (simp add: run_callback_def)
  also have "cb_elem_next (lists_gen t, i) (mem_word mem (p + 8)) (walking t ?ls i ?infos m')
      = get_list_elem_thread_id (walking t
      (ls[i := (ls ! i)\<lparr>tl_count := tl_count (ls ! i) - 1, list_elem_ptr_prev := p,
                       list_elem_ptr := mem_word mem (p + 8)\<rparr>]) i ?infos m')"
    using assms(3,5) by (simp add: cb_elem_next_def)
  finally show ?thesis .
qed

subsection \<open>One list\<close>

lemma elems_walk:
  assumes "answers_reads mem remote" and "m_conn t = []" and "i < length ls"
    and "unat (tl_count (ls ! i)) = n" and "addr32 (list_elem_ptr (ls ! i))"
    and "name_tasks (mb_multiprocess t) mem (current_thread_tcb (m_threading t))
      (walk_elems mem n (list_elem_ptr (ls ! i)) (list_elem_ptr_prev (ls ! i))) m = (new, m')"
  shows "\<exists>l. reaches remote (get_list_elem_thread_id (walking t ls i infos m))
    (get_thread_list_data (walking t (ls[i := l]) (Suc i) (infos @ new) m'))"
  using assms(3-6)
proof (induction n arbitrary: ls infos m new)
  case 0
  then have "tl_count (ls ! i) = 0" by (simp add: unat_eq_0)
  then have "get_list_elem_thread_id (walking t ls i infos m)
      = get_thread_list_data (walking t ls (Suc i) infos m)"
    using 0 by (simp add: get_list_elem_thread_id_def)
  then show ?case
    using 0 by (intro exI [of _ "ls ! i"]) (auto simp: list_update_id)
next
  case (Suc n)
  let ?p = "list_elem_ptr (ls ! i)"
  let ?mp = "mb_multiprocess t" and ?cur = "current_thread_tcb (m_threading t)"
  from Suc.prems(2) have c: "tl_count (ls ! i) \<noteq> 0" by auto
  show ?case
  proof (cases "?p = 0 \<or> ?p = list_elem_ptr_prev (ls ! i)")
    case True
    then have "get_list_elem_thread_id (walking t ls i infos m)
        = get_thread_list_data (walking t ls (Suc i) infos m)"
      using Suc.prems(1) by (auto simp: get_list_elem_thread_id_def)
    then show ?thesis
      using Suc.prems True by (intro exI [of _ "ls ! i"]) (auto simp: list_update_id)
  next
    case False
    let ?tcb = "mem_word mem (?p + 12)"
    obtain tid m1 where a: "assign_id ?mp ?tcb m = (tid, m1)" by fastforce
    obtain rest where rest: "new = task_info mem ?cur ?tcb tid # rest"
      and nt: "name_tasks ?mp mem ?cur (walk_elems mem n (mem_word mem (?p + 8)) ?p) m1 = (rest, m')"
      using Suc.prems(4) False a by (auto split: prod.splits)
    let ?l = "(ls ! i)\<lparr>tl_count := tl_count (ls ! i) - 1, list_elem_ptr_prev := ?p,
        list_elem_ptr := mem_word mem (?p + 8)\<rparr>"
    have "unat (tl_count (ls ! i) - 1) = n" using Suc.prems(2) c
      by (simp add: unat_minus_one)
    then obtain l where
      "reaches remote (get_list_elem_thread_id (walking t (ls[i := ?l]) i (infos @ [task_info mem ?cur ?tcb tid]) m1))
        (get_thread_list_data (walking t ((ls[i := ?l])[i := l]) (Suc i)
          ((infos @ [task_info mem ?cur ?tcb tid]) @ rest) m'))"
      using Suc.IH [of "ls[i := ?l]" m1 rest "infos @ [task_info mem ?cur ?tcb tid]"] Suc.prems(1) nt by auto
    moreover have "reaches remote (get_list_elem_thread_id (walking t ls i infos m))
        (get_list_elem_thread_id (walking t (ls[i := ?l]) i (infos @ [task_info mem ?cur ?tcb tid]) m1))"
      using elem_step [OF assms(1,2) Suc.prems(1) c refl _ _ Suc.prems(3) a] False by blast
    ultimately show ?thesis using reaches_trans rest by (intro exI [of _ l]) fastforce
  qed
qed

text \<open>A ready list lies at most \<open>2^32\<close> list heads behind the first one.\<close>

abbreviation list_addr :: "u64 \<Rightarrow> bool" where
  "list_addr a \<equiv> unat a < 2 ^ 38"

lemma list_walk:
  assumes "answers_reads mem remote" and "m_conn t = []" and "i < length ls"
    and "ls ! i = thread_list_at a" and "a \<noteq> 0" and "list_addr a"
    and "name_tasks (mb_multiprocess t) mem (current_thread_tcb (m_threading t)) (list_tasks mem a) m
      = (new, m')"
  shows "\<exists>l. reaches remote (get_list_threads_count (walking t ls i infos m))
    (get_thread_list_data (walking t (ls[i := l]) (Suc i) (infos @ new) m'))"
proof -
  let ?n = "mem_word mem a" and ?p = "mem_word mem (a + 16)"
  let ?l1 = "(thread_list_at a)\<lparr>tl_count := ?n\<rparr>"
  let ?r = "(lists_gen t, i)"
  have a: "unat a < 2 ^ 40" using assms(6) by simp
  have a16: "unat (a + 16) < 2 ^ 40" using assms(6) by (intro offset_small) simp_all
  have "get_list_threads_count (walking t ls i infos m)
      = read_memory a 4 (Cb_list_count ?r) (walking t ls i infos m)"
    using assms(3,4) by (simp add: get_list_threads_count_def thread_list_at_def mb_constants)
  also have "reaches remote \<dots> (cb_list_count ?r ?n (walking t ls i infos m))"
    using reaches_read [OF assms(1) _ a, of "walking t ls i infos m" 4 "Cb_list_count ?r"] assms(2)
    by (simp add: run_callback_def)
  finally have 1: "reaches remote (get_list_threads_count (walking t ls i infos m))
      (cb_list_count ?r ?n (walking t ls i infos m))" .
  show ?thesis
  proof (cases "?n = 0")
    case True
    then have "cb_list_count ?r ?n (walking t ls i infos m)
        = get_thread_list_data (walking t (ls[i := ?l1]) (Suc i) infos m)"
      using assms(3,4) by (simp add: cb_list_count_def)
    moreover have "new = []" "m' = m" using assms(5,7) True by (simp_all add: list_tasks_def)
    ultimately show ?thesis using 1 by (intro exI [of _ ?l1]) simp
  next
    case False
    let ?w1 = "walking t (ls[i := ?l1]) i infos m"
    let ?ls2 = "ls[i := ?l1\<lparr>list_elem_ptr := ?p\<rparr>]"
    from False have "cb_list_count ?r ?n (walking t ls i infos m)
        = read_memory (a + 16) 4 (Cb_list_elem_ptr ?r) ?w1"
      using assms(3,4)
      by (simp add: cb_list_count_def get_list_elem_ptr_def thread_list_at_def mb_constants)
    also have "reaches remote \<dots> (cb_list_elem_ptr ?r ?p ?w1)"
      using reaches_read [OF assms(1) _ a16, of ?w1 4 "Cb_list_elem_ptr ?r"] assms(2)
      by (simp add: run_callback_def)
    also have "cb_list_elem_ptr ?r ?p ?w1 = get_list_elem_thread_id (walking t ?ls2 i infos m)"
      using assms(3) by (simp add: cb_list_elem_ptr_def)
    finally have 2: "reaches remote (cb_list_count ?r ?n (walking t ls i infos m))
      (get_list_elem_thread_id (walking t ?ls2 i infos m))" .
    have "\<exists>l. reaches remote (get_list_elem_thread_id (walking t ?ls2 i infos m))
      (get_thread_list_data (walking t (?ls2[i := l]) (Suc i) (infos @ new) m'))"
      by (rule elems_walk [OF assms(1,2), where n = "unat ?n"])
        (use assms(3,5,7) in \<open>simp_all add: list_tasks_def thread_list_at_def\<close>)
    then obtain l where "reaches remote (get_list_elem_thread_id (walking t ?ls2 i infos m))
      (get_thread_list_data (walking t (ls[i := l]) (Suc i) (infos @ new) m'))" by auto
    with 1 2 show ?thesis by (blast intro: reaches_trans)
  qed
qed

subsection \<open>All lists\<close>

lemma skip_lists_drop:
  "i < length ls \<Longrightarrow> skip_lists (drop i ls) i =
     (if tl_address (ls ! i) = 0 then skip_lists (drop (Suc i) ls) (Suc i) else i)"
  by (simp add: Cons_nth_drop_Suc [symmetric])

lemma get_thread_list_data_skip:
  assumes "i < length ls" and "tl_address (ls ! i) = 0"
  shows "get_thread_list_data (walking t ls i infos m) = get_thread_list_data (walking t ls (Suc i) infos m)"
  using assms by (simp add: get_thread_list_data_def skip_lists_drop Let_def)

lemma get_thread_list_data_stop:
  assumes "i < length ls" and "tl_address (ls ! i) \<noteq> 0"
  shows "get_thread_list_data (walking t ls i infos m) = get_list_threads_count (walking t ls i infos m)"
  using assms by (simp add: get_thread_list_data_def skip_lists_drop Let_def)

lemma get_thread_list_data_end:
  "get_thread_list_data (walking t ls (length ls) infos m)
    = update_threads_done (walking t ls (length ls) infos m)"
  by (simp add: get_thread_list_data_def Let_def)

lemma lists_walk:
  assumes "answers_reads mem remote" and "m_conn t = []"
    and "i + length as = length ls" and "\<forall>j<length as. ls ! (i + j) = thread_list_at (as ! j)"
    and "\<forall>a\<in>set as. list_addr a"
    and "name_tasks (mb_multiprocess t) mem (current_thread_tcb (m_threading t))
      (concat (map (list_tasks mem) as)) m = (new, m')"
  shows "\<exists>ls'. length ls' = length ls \<and>
    reaches remote (get_thread_list_data (walking t ls i infos m))
      (update_threads_done (walking t ls' (length ls) (infos @ new) m'))"
  using assms(3-6)
proof (induction as arbitrary: i ls infos m new)
  case Nil
  then show ?case using get_thread_list_data_end [of t ls infos m] by auto
next
  case (Cons a as)
  let ?mp = "mb_multiprocess t" and ?cur = "current_thread_tcb (m_threading t)"
  from Cons.prems(1) have i: "i < length ls" by simp
  from Cons.prems(2) have li: "ls ! i = thread_list_at a" by force
  have later: "\<forall>j<length as. ls ! (Suc i + j) = thread_list_at (as ! j)"
  proof (intro allI impI)
    fix j assume "j < length as"
    with Cons.prems(2) [rule_format, of "Suc j"] show "ls ! (Suc i + j) = thread_list_at (as ! j)" by simp
  qed
  obtain new1 m1 where n1: "name_tasks ?mp mem ?cur (list_tasks mem a) m = (new1, m1)" by fastforce
  with Cons.prems(4) obtain new2 where n2: "new = new1 @ new2"
    "name_tasks ?mp mem ?cur (concat (map (list_tasks mem) as)) m1 = (new2, m')"
    by (auto simp: name_tasks_append split: prod.splits)
  have step: "\<exists>l. reaches remote (get_thread_list_data (walking t ls i infos m))
      (get_thread_list_data (walking t (ls[i := l]) (Suc i) (infos @ new1) m1))"
  proof (cases "a = 0")
    case True
    then have "new1 = []" "m1 = m" using n1 by (simp_all add: list_tasks_def)
    moreover have "tl_address (ls ! i) = 0" using li True by (simp add: thread_list_at_def)
    ultimately show ?thesis
      using get_thread_list_data_skip [OF i] by (intro exI [of _ "ls ! i"]) (auto simp: list_update_id)
  next
    case False
    then have "tl_address (ls ! i) \<noteq> 0" using li by (simp add: thread_list_at_def)
    with get_thread_list_data_stop [OF i] list_walk [OF assms(1,2) i li False _ n1] Cons.prems(3)
    show ?thesis by simp
  qed
  then obtain l where s: "reaches remote (get_thread_list_data (walking t ls i infos m))
      (get_thread_list_data (walking t (ls[i := l]) (Suc i) (infos @ new1) m1))" by blast
  have "\<exists>ls'. length ls' = length (ls[i := l]) \<and>
    reaches remote (get_thread_list_data (walking t (ls[i := l]) (Suc i) (infos @ new1) m1))
      (update_threads_done (walking t ls' (length (ls[i := l])) ((infos @ new1) @ new2) m'))"
    by (rule Cons.IH) (use Cons.prems(1,3) later n2(2) in simp_all)
  with s n2(1) show ?case using reaches_trans by fastforce
qed

subsection \<open>The whole update\<close>

definition ready_count :: "memory \<Rightarrow> mb \<Rightarrow> u64" where
  "ready_count mem t =
     (if symbol_addr t Symbol_uxTopUsedPriority \<noteq> 0
      then mem_word mem (symbol_addr t Symbol_uxTopUsedPriority)
      else if symbol_addr t Symbol_xTopReadyPriority \<noteq> 0
      then mem_word mem (symbol_addr t Symbol_xTopReadyPriority)
      else 8)"

definition list_addresses :: "u64 \<Rightarrow> mb \<Rightarrow> u64 list" where
  "list_addresses count t =
     map (\<lambda>i. symbol_addr t Symbol_pxReadyTasksLists + of_nat i * 20) [0..<unat count]
     @ map (symbol_addr t) [Symbol_xDelayedTaskList1, Symbol_xDelayedTaskList2, Symbol_xPendingReadyList,
               Symbol_xTasksWaitingTermination, Symbol_xSuspendedTaskList]"

definition symbols32 :: "mb \<Rightarrow> bool" where
  "symbols32 t = (\<forall>s. addr32 (symbol_addr t s))"

lemma list_addresses_small:
  assumes "symbols32 t" and "addr32 c" and "a \<in> set (list_addresses c t)"
  shows "list_addr a"
proof -
  have s: "addr32 (symbol_addr t s)" for s using assms(1) by (simp add: symbols32_def)
  consider i where "i < unat c" "a = symbol_addr t Symbol_pxReadyTasksLists + of_nat i * 20"
    | s where "a = symbol_addr t s"
    using assms(3) by (auto simp: list_addresses_def)
  then show ?thesis
  proof cases
    case 1
    have "unat (of_nat i :: u64) \<le> i" by (simp add: unat_of_nat)
    moreover have "unat (of_nat i * 20 :: u64) \<le> unat (of_nat i :: u64) * 20"
      using unat_mult_le [of "of_nat i" 20] by simp
    moreover have "unat a \<le> unat (symbol_addr t Symbol_pxReadyTasksLists) + unat (of_nat i * 20 :: u64)"
      unfolding 1(2) by (rule unat_add_le)
    ultimately show ?thesis using s [of Symbol_pxReadyTasksLists] 1(1) assms(2) by simp
  next
    case 2
    with s [of s] show ?thesis by simp
  qed
qed

lemma nth_map_append: "j < length xs \<Longrightarrow> (map f xs @ ys) ! j = f (xs ! j)"
  by (simp add: nth_append)

lemma walking_new_lists:
  "walking (t\<lparr>lists_gen := g\<rparr>) ls i (t_info (m_threading t)) (m_threads_map t)
    = t\<lparr>m_threading := (m_threading t)\<lparr>t_lists := ls, list_it := Some (g, i)\<rparr>, lists_gen := g\<rparr>"
  by (cases t; cases "m_threading t") (simp add: walking_def)

lemma lists_setup:
  assumes "answers_reads mem remote" and "m_conn t = []" and "symbols32 t" and "addr32 c"
    and "t_lists (m_threading t) = []"
    and "name_tasks (mb_multiprocess t) mem (current_thread_tcb (m_threading t))
      (concat (map (list_tasks mem) (list_addresses c t))) (m_threads_map t) = (new, m')"
  shows "\<exists>ls i. reaches remote (process_ready_thread_lists_count c t)
    (update_threads_done (walking (t\<lparr>lists_gen := lists_gen t + 1\<rparr>) ls i (t_info (m_threading t) @ new) m'))"
proof -
  let ?as = "list_addresses c t" and ?t = "t\<lparr>lists_gen := lists_gen t + 1\<rparr>"
  let ?ls = "map thread_list_at ?as"
  have "unat (c + 1 + 5) \<le> unat (c + 1) + unat (5 :: u64)" by (rule unat_add_le)
  moreover have "unat (c + 1) \<le> unat c + unat (1 :: u64)" by (rule unat_add_le)
  ultimately have "\<not> unat (c + 1 + 5) > lists_max_size"
    using assms(4) by (simp add: lists_max_size_def)
  then have "process_ready_thread_lists_count c t
      = get_thread_list_data (walking ?t ?ls 0 (t_info (m_threading t)) (m_threads_map t))"
    using assms(5)
    by (simp add: process_ready_thread_lists_count_def list_addresses_def walking_new_lists
        LIST_WIDTH_def Let_def comp_def)
  moreover have "\<exists>ls'. length ls' = length ?ls \<and> reaches remote
      (get_thread_list_data (walking ?t ?ls 0 (t_info (m_threading t)) (m_threads_map t)))
      (update_threads_done (walking ?t ls' (length ?ls) (t_info (m_threading t) @ new) m'))"
    by (rule lists_walk [OF assms(1), where as = ?as])
      (use assms(2,6) list_addresses_small [OF assms(3,4)] in simp_all)
  ultimately show ?thesis by auto
qed

text \<open>The number of the running task, the tasks found and the map after numbering them.\<close>

definition update_result ::
  "memory \<Rightarrow> mb \<Rightarrow> threadid \<times> thread_info list \<times> (u64, u32) smap" where
  "update_result mem t =
     (let cur = mem_word mem (symbol_addr t Symbol_pxCurrentTCB);
          (cid, m1) = (if cur = 0 then (threadid_default, m_threads_map t)
                       else assign_id (mb_multiprocess t) cur (m_threads_map t));
          tcbs = (if mem_word mem (symbol_addr t Symbol_uxCurrentNumberOfTasks) = 0 then []
                  else concat (map (list_tasks mem) (list_addresses (ready_count mem t) t)));
          (infos, m2) = name_tasks (mb_multiprocess t) mem cur tcbs m1
      in (cid, infos, m2))"

definition execution_info :: "mb \<Rightarrow> thread_info" where
  "execution_info t =
     \<lparr>thread_tcb = 1, thread_id = \<lparr>m_multiprocess = mb_multiprocess t, m_process = 1, m_threadid = 1\<rparr>,
      ti_exists = True, ti_name = ''Current Execution'', ti_extra = []\<rparr>"

lemma add_current_eq:
  "add_current_execution t = t\<lparr>m_threading := (m_threading t)
     \<lparr>t_info := t_info (m_threading t) @ [execution_info t]\<rparr>\<rparr>"
  by (simp add: add_current_execution_def execution_info_def thread_info_default_def
      make_threadid_pid_def THREAD_ID_CURRENT_EXECUTION_def Let_def)

lemma symbol_addr_simps [simp]:
  "symbol_addr (t\<lparr>m_threading := th\<rparr>) = symbol_addr t"
  "symbol_addr (t\<lparr>m_threads_map := m\<rparr>) = symbol_addr t"
  "symbol_addr (t\<lparr>lists_gen := g\<rparr>) = symbol_addr t"
  "symbol_addr (t\<lparr>info_gen := g\<rparr>) = symbol_addr t"
  "symbol_addr (t\<lparr>m_stop_reply_response := p\<rparr>) = symbol_addr t"
  by (simp_all add: symbol_addr_def fun_eq_iff)

lemma symbol_addr_cong:
  "symbol_addr t = symbol_addr u \<Longrightarrow> symbols32 t = symbols32 u"
  "symbol_addr t = symbol_addr u \<Longrightarrow> ready_count mem t = ready_count mem u"
  "symbol_addr t = symbol_addr u \<Longrightarrow> list_addresses c t = list_addresses c u"
  by (simp_all add: symbols32_def ready_count_def list_addresses_def)

text \<open>What the update does not touch.\<close>

definition same_context :: "mb \<Rightarrow> mb \<Rightarrow> bool" where
  "same_context t u = (m_stop_reply_response t = m_stop_reply_response u
     \<and> m_current_thread_id t = m_current_thread_id u \<and> m_symbols t = m_symbols u
     \<and> mb_multiprocess t = mb_multiprocess u \<and> m_rtos_avail t = m_rtos_avail u)"

lemma lists_count_walk:
  assumes "answers_reads mem remote" and "m_conn t = []" and "symbols32 t"
    and "t_lists (m_threading t) = []"
    and "name_tasks (mb_multiprocess t) mem (current_thread_tcb (m_threading t))
      (concat (map (list_tasks mem) (list_addresses (ready_count mem t) t))) (m_threads_map t) = (new, m')"
  shows "\<exists>ls i. reaches remote (get_thread_lists_count t)
    (update_threads_done (walking (t\<lparr>lists_gen := lists_gen t + 1\<rparr>) ls i (t_info (m_threading t) @ new) m'))"
proof -
  have c: "addr32 (ready_count mem t)" by (simp add: ready_count_def)
  have s: "unat (symbol_addr t x) < 2 ^ 40" for x
    using assms(3) by (auto simp: symbols32_def intro: order.strict_trans [of _ "2 ^ 32"])
  have read: "reaches remote (read_memory (symbol_addr t x) 4 Cb_ready_lists_count t)
      (process_ready_thread_lists_count (mem_word mem (symbol_addr t x)) t)" for x
    using reaches_read [OF assms(1,2) s [of x], of 4 Cb_ready_lists_count] by (simp add: run_callback_def)
  have "reaches remote (get_thread_lists_count t) (process_ready_thread_lists_count (ready_count mem t) t)"
    using read by (auto simp: get_thread_lists_count_def ready_count_def mb_constants)
  with lists_setup [OF assms(1-3) c assms(4,5)] show ?thesis by (blast intro: reaches_trans)
qed

lemma current_thread_walk:
  assumes "answers_reads mem remote" and "m_conn u = []" and "symbols32 u"
    and "t_lists (m_threading u) = []" and "t_info (m_threading u) = []"
    and "current_thread_id (m_threading u) = threadid_default"
    and "addr32 (threads_count (m_threading u))"
    and "(if cur = 0 then (threadid_default, m_threads_map u)
          else assign_id (mb_multiprocess u) cur (m_threads_map u)) = (cid, m1)"
    and "name_tasks (mb_multiprocess u) mem cur
      (if threads_count (m_threading u) = 0 then []
       else concat (map (list_tasks mem) (list_addresses (ready_count mem u) u))) m1 = (new, m2)"
  shows "\<exists>w. reaches remote (cb_current_thread cur u) (update_threads_done w) \<and> m_conn w = []
    \<and> same_context w u \<and> m_threads_map w = m2 \<and> t_info (m_threading w) = execution_info u # new
    \<and> done_cb (m_threading w) = done_cb (m_threading u)
    \<and> current_thread_tcb (m_threading w) = cur \<and> current_thread_id (m_threading w) = cid"
proof -
  let ?v = "threads_count (m_threading u)"
  let ?th = "(m_threading u)\<lparr>threads_count := ?v + 1, current_thread_tcb := cur, current_thread_id := cid,
      t_info := [execution_info u]\<rparr>"
  let ?w = "u\<lparr>m_threading := ?th, m_threads_map := m1\<rparr>"
  have v: "?v + 1 = 1 \<longleftrightarrow> ?v = 0" by simp
  let ?u1 = "u\<lparr>m_threading := m_threading u\<lparr>current_thread_tcb := cur\<rparr>\<rparr>"
  let ?u2 = "?u1\<lparr>m_threading := m_threading ?u1\<lparr>current_thread_id := cid\<rparr>, m_threads_map := m1\<rparr>"
  have u2: "(if cur \<noteq> 0
      then let (tid, t) = get_threadid cur True ?u1
           in t\<lparr>m_threading := m_threading t\<lparr>current_thread_id := tid\<rparr>\<rparr>
      else ?u1) = ?u2"
    using assms(6,8) by (cases u; cases "m_threading u") (auto simp: get_threadid_assign)
  have u3: "add_current_execution
      (?u2\<lparr>m_threading := m_threading ?u2\<lparr>threads_count := threads_count (m_threading ?u2) + 1\<rparr>\<rparr>) = ?w"
    using assms(5) by (cases u; cases "m_threading u") (simp add: add_current_eq execution_info_def)
  have w: "cb_current_thread cur u =
      (if ?v = 0 then update_threads_done ?w else get_thread_lists_count ?w)"
    unfolding cb_current_thread_def Let_def u2 [unfolded Let_def] u3 by (simp add: v)
  show ?thesis
  proof (cases "?v = 0")
    case True
    with w assms show ?thesis
      by (intro exI [of _ ?w]) (auto simp: same_context_def)
  next
    case False
    have "symbol_addr ?w = symbol_addr u" by simp
    note cong = symbol_addr_cong [OF this]
    have "\<exists>ls i. reaches remote (get_thread_lists_count ?w)
      (update_threads_done (walking (?w\<lparr>lists_gen := lists_gen ?w + 1\<rparr>) ls i (t_info (m_threading ?w) @ new) m2))"
      by (rule lists_count_walk [OF assms(1)]) (use assms False cong in simp_all)
    then obtain ls i where r: "reaches remote (get_thread_lists_count ?w)
      (update_threads_done (walking (?w\<lparr>lists_gen := lists_gen ?w + 1\<rparr>) ls i (t_info (m_threading ?w) @ new) m2))"
      by blast
    with w False assms(2) show ?thesis
      by (intro exI [of _ "walking (?w\<lparr>lists_gen := lists_gen ?w + 1\<rparr>) ls i (t_info (m_threading ?w) @ new) m2"])
        (simp add: same_context_def, simp add: walking_def)
  qed
qed

lemma update_walk:
  assumes "answers_reads mem remote" and "m_conn t = []" and "symbols32 t" and "m_rtos_avail t"
    and "update_result mem t = (cid, new, m2)"
  shows "\<exists>w. reaches remote (update_threads cb t) (update_threads_done w) \<and> m_conn w = []
    \<and> same_context w t \<and> m_threads_map w = m2 \<and> t_info (m_threading w) = execution_info t # new
    \<and> done_cb (m_threading w) = cb
    \<and> current_thread_tcb (m_threading w) = mem_word mem (symbol_addr t Symbol_pxCurrentTCB)
    \<and> current_thread_id (m_threading w) = cid"
proof -
  let ?v = "mem_word mem (symbol_addr t Symbol_uxCurrentNumberOfTasks)"
  let ?cur = "mem_word mem (symbol_addr t Symbol_pxCurrentTCB)"
  let ?u1 = "(reset_threading t)\<lparr>m_threading := m_threading (reset_threading t)\<lparr>done_cb := cb\<rparr>\<rparr>"
  let ?u2 = "?u1\<lparr>m_threading := m_threading ?u1\<lparr>threads_count := ?v\<rparr>\<rparr>"
  have s: "unat (symbol_addr t x) < 2 ^ 40" for x
    using assms(3) by (auto simp: symbols32_def intro: order.strict_trans [of _ "2 ^ 32"])
  have sym: "symbol_addr ?u2 = symbol_addr t" and c: "m_conn ?u1 = []"
    using assms(2) by (simp_all add: reset_threading_def)
  have "update_threads cb t
      = read_memory (symbol_addr t Symbol_uxCurrentNumberOfTasks) 4 Cb_threads_count ?u1"
    using assms(4) by (simp add: update_threads_def get_threads_count_def reset_threading_def mb_constants)
  also have "reaches remote \<dots> (cb_threads_count ?v ?u1)"
    using reaches_read [OF assms(1) c s [of Symbol_uxCurrentNumberOfTasks], of 4 Cb_threads_count] by (simp add: run_callback_def)
  also have "cb_threads_count ?v ?u1
      = read_memory (symbol_addr t Symbol_pxCurrentTCB) 4 Cb_current_thread ?u2"
    by (simp add: cb_threads_count_def get_current_thread_def reset_threading_def mb_constants)
  also have "reaches remote \<dots> (cb_current_thread ?cur ?u2)"
    using reaches_read [OF assms(1) _ s [of Symbol_pxCurrentTCB], of ?u2 4 Cb_current_thread] c by (simp add: run_callback_def)
  finally have 1: "reaches remote (update_threads cb t) (cb_current_thread ?cur ?u2)" .
  obtain m1 where m1: "(if ?cur = 0 then (threadid_default, m_threads_map t)
      else assign_id (mb_multiprocess t) ?cur (m_threads_map t)) = (cid, m1)"
    and nt: "name_tasks (mb_multiprocess t) mem ?cur (if ?v = 0 then []
      else concat (map (list_tasks mem) (list_addresses (ready_count mem t) t))) m1 = (new, m2)"
    using assms(5) by (auto simp: update_result_def Let_def split: prod.splits)
  have f: "m_threads_map ?u2 = m_threads_map t" "mb_multiprocess ?u2 = mb_multiprocess t"
    "t_lists (m_threading ?u2) = []" "t_info (m_threading ?u2) = []"
    "current_thread_id (m_threading ?u2) = threadid_default" "threads_count (m_threading ?u2) = ?v"
    "done_cb (m_threading ?u2) = cb" "execution_info ?u2 = execution_info t" "m_conn ?u2 = []"
    using assms(2) by (simp_all add: reset_threading_def threading_default_def execution_info_def)
  have "\<exists>w. reaches remote (cb_current_thread ?cur ?u2) (update_threads_done w) \<and> m_conn w = []
    \<and> same_context w ?u2 \<and> m_threads_map w = m2 \<and> t_info (m_threading w) = execution_info ?u2 # new
    \<and> done_cb (m_threading w) = done_cb (m_threading ?u2)
    \<and> current_thread_tcb (m_threading w) = ?cur \<and> current_thread_id (m_threading w) = cid"
    by (rule current_thread_walk [OF assms(1), where ?m1.0 = m1])
      (unfold f symbol_addr_cong [OF sym], (rule assms(3) m1 nt mem_word_bound refl)+)
  moreover have "same_context w ?u2 \<Longrightarrow> same_context w t" for w
    by (simp add: same_context_def reset_threading_def)
  ultimately show ?thesis using 1 reaches_trans unfolding f by blast
qed

lemma serve_done: "m_conn t = [Internal_Response p] \<Longrightarrow> serve n remote t = Inr t"
  by (cases n) simp_all

lemma update_done_walk:
  assumes "done_cb (m_threading w) = Some Stop_Reply_Done" and "m_conn w = []"
    and "pkt_data (m_stop_reply_response w) = signal @ put_fields fs @ rest"
    and "length signal = 3" and "plain signal" and "\<forall>f\<in>set fs. field_ok f" and "CHR '';'' \<notin> set rest"
  shows "\<exists>t'. update_threads_done w = Inr t'
    \<and> t_info (m_threading t') = t_info (m_threading w) \<and> t_lists (m_threading t') = []
    \<and> threads_count (m_threading t') = of_nat (length (t_info (m_threading w)))
    \<and> current_thread_tcb (m_threading t') = current_thread_tcb (m_threading w)
    \<and> current_thread_id (m_threading t') = current_thread_id (m_threading w)
    \<and> m_threads_map t'
        = smap_keep (\<lambda>tcb. tcb \<in> thread_tcb ` set (t_info (m_threading w))) (m_threads_map w)
    \<and> m_conn t' = [Internal_Response (stop_reply_for signal fs (tid_to_string (m_current_thread_id w)))]"
proof -
  let ?w = "w\<lparr>m_threading := (m_threading w)\<lparr>t_lists := [],
        threads_count := of_nat (length (t_info (m_threading w)))\<rparr>, lists_gen := lists_gen w + 1,
      m_threads_map := smap_keep (\<lambda>tcb. \<exists>info\<in>set (t_info (m_threading w)). tcb = thread_tcb info)
        (m_threads_map w)\<rparr>"
  have "update_threads_done w = stop_reply_done ?w"
    using assms(1) by (simp add: update_threads_done_def run_done_cb_def Let_def)
  moreover have "pkt_data (m_stop_reply_response ?w) = signal @ put_fields fs @ rest" using assms(3) by simp
  note stop_reply_done_spec [OF this assms(4-7)]
  ultimately show ?thesis using assms(2) by (simp add: push_internal_response_def image_iff)
qed

lemma update_result_reply: "update_result mem (t\<lparr>m_stop_reply_response := p\<rparr>) = update_result mem t"
proof -
  let ?t = "t\<lparr>m_stop_reply_response := p\<rparr>"
  have f: "m_threads_map ?t = m_threads_map t" "mb_multiprocess ?t = mb_multiprocess t" by simp_all
  show ?thesis
    unfolding update_result_def f symbol_addr_simps symbol_addr_cong [of ?t t, OF symbol_addr_simps(5)] ..
qed

lemma thread_update_aux:
  assumes "answers_reads mem remote" and "m_conn t = []" and "symbols32 t" and "m_rtos_avail t"
    and "plain [a, b]" and "\<forall>f\<in>set fs. field_ok f" and "field_ok rest"
    and "update_result mem t = (cid, tasks, m)"
  shows "\<exists>t' k.
      (\<forall>n\<ge>k. bind_res (run_callback Cb_stop_reply req
            (data_packet (CHR ''T'' # a # b # put_fields fs @ rest)) t) (serve n remote) = Inr t')
    \<and> t_info (m_threading t') = execution_info t # tasks
    \<and> threads_count (m_threading t') = of_nat (Suc (length tasks))
    \<and> current_thread_tcb (m_threading t') = mem_word mem (symbol_addr t Symbol_pxCurrentTCB)
    \<and> current_thread_id (m_threading t') = cid
    \<and> m_threads_map t' = smap_keep (\<lambda>tcb. tcb = 1 \<or> tcb \<in> thread_tcb ` set tasks) m
    \<and> m_conn t' = [Internal_Response (data_packet (CHR ''T'' # a # b #
              put_fields (map (rewrite_field (tid_to_string (m_current_thread_id t))) fs)))]"
proof -
  let ?rep = "data_packet (CHR ''T'' # a # b # put_fields fs @ rest)"
  let ?t = "t\<lparr>m_stop_reply_response := ?rep\<rparr>"
  let ?run = "run_callback Cb_stop_reply req ?rep t"
  have run: "?run = update_threads (Some Stop_Reply_Done) ?t"
    by (simp add: run_callback_def cb_stop_reply_def sv_index_def)
  have r: "update_result mem ?t = (cid, tasks, m)"
    using assms(8) by (simp add: update_result_reply)
  have s: "symbols32 ?t" using assms(3) symbol_addr_cong(1) [of ?t t] by simp
  obtain w where w: "reaches remote ?run (update_threads_done w)" "m_conn w = []"
    "same_context w ?t" "m_threads_map w = m" "t_info (m_threading w) = execution_info t # tasks"
    "done_cb (m_threading w) = Some Stop_Reply_Done"
    "current_thread_tcb (m_threading w) = mem_word mem (symbol_addr t Symbol_pxCurrentTCB)"
    "current_thread_id (m_threading w) = cid"
    using update_walk [OF assms(1) _ s _ r, of "Some Stop_Reply_Done"] assms(2,4)
    by (auto simp: run execution_info_def)
  have d: "pkt_data (m_stop_reply_response w) = [CHR ''T'', a, b] @ put_fields fs @ rest"
    using w(3) by (simp add: same_context_def)
  obtain t' where t': "update_threads_done w = Inr t'"
    "t_info (m_threading t') = t_info (m_threading w)"
    "threads_count (m_threading t') = of_nat (length (t_info (m_threading w)))"
    "current_thread_tcb (m_threading t') = current_thread_tcb (m_threading w)"
    "current_thread_id (m_threading t') = current_thread_id (m_threading w)"
    "m_threads_map t'
        = smap_keep (\<lambda>tcb. tcb \<in> thread_tcb ` set (t_info (m_threading w))) (m_threads_map w)"
    "m_conn t' = [Internal_Response (stop_reply_for [CHR ''T'', a, b] fs (tid_to_string (m_current_thread_id w)))]"
    using update_done_walk [OF w(6,2) d _ _ assms(6)] assms(5,7) by auto
  obtain k where k: "\<And>n. bind_res ?run (serve (k + n) remote) = bind_res (update_threads_done w) (serve n remote)"
    using w(1) unfolding reaches_def by blast
  have "bind_res ?run (serve n remote) = Inr t'" if "k \<le> n" for n
    using k [of "n - k"] that t'(1) serve_done [OF t'(7)] by simp
  then have "\<forall>n\<ge>k. bind_res ?run (serve n remote) = Inr t'" by blast
  moreover have "m_current_thread_id w = m_current_thread_id t" using w(3) by (simp add: same_context_def)
  ultimately show ?thesis
    by (intro exI [of _ t'] exI [of _ k])
      (simp add: t'(2-7) w(4,5,7,8) stop_reply_for_def execution_info_def)
qed

text \<open>C1: Whatever a 32-bit memory holds, damaged and cyclic lists included, the thread update that a
  \<open>T\<close> reply starts ends after finitely many reads. The target then knows the current execution
  and the tasks of the reference walk with their numbers, names and states, the running task is
  the one in the memory, numbers are kept only for the tasks met, and the client gets the
  rewritten stop reply as the only packet.\<close>

theorem thread_update:
  assumes "answers_reads mem remote" and "m_conn t = []" and "symbols32 t" and "m_rtos_avail t"
    and "plain [a, b]" and "\<forall>f\<in>set fs. field_ok f" and "field_ok rest"
    and "update_result mem t = (cid, tasks, m)"
  shows "\<exists>t' k.
      (\<forall>n\<ge>k. bind_res (run_callback Cb_stop_reply req
            (data_packet (CHR ''T'' # a # b # put_fields fs @ rest)) t) (serve n remote) = Inr t')
    \<and> t_info (m_threading t') = execution_info t # tasks
    \<and> threads_count (m_threading t') = of_nat (Suc (length tasks))
    \<and> current_thread_tcb (m_threading t') = mem_word mem (symbol_addr t Symbol_pxCurrentTCB)
    \<and> current_thread_id (m_threading t') = cid
    \<and> m_threads_map t' = smap_keep (\<lambda>tcb. tcb = 1 \<or> tcb \<in> thread_tcb ` set tasks) m
    \<and> m_conn t' = [Internal_Response (data_packet (CHR ''T'' # a # b #
              put_fields (map (rewrite_field (tid_to_string (m_current_thread_id t))) fs)))]"
  by (rule thread_update_aux [OF assms])

text \<open>A remote that serves a memory.\<close>

definition memory_server :: "memory \<Rightarrow> gdb_packet \<Rightarrow> gdb_packet" where
  "memory_server mem p =
     (let s = drop 1 (pkt_data p);
          a = takeWhile is_hex s;
          n = takeWhile is_hex (drop (length a + 1) s)
      in data_packet (bin2hex (mem_bytes mem (of_nat (hex_value a)) (hex_value n)) []))"

lemma memory_server_answers: "answers_reads mem (memory_server mem)"
proof -
  have c: "\<not> is_hex (CHR '','')" using hex_not_special by blast
  have 1: "takeWhile is_hex (hex_str k @ CHR '','' # s) = hex_str k" for k s
    using c by (intro takeWhile_append_stop) (auto dest: hex_str_all_hex)
  have 2: "takeWhile is_hex (hex_str k) = hex_str k" for k
    by (auto simp: takeWhile_eq_all_conv dest: hex_str_all_hex)
  have 3: "drop 1 (read_req_text a n) = hex_str (unat a) @ CHR '','' # hex_str (unat n)" for a n
    by (simp add: read_req_text_def)
  show ?thesis
    unfolding answers_reads_def memory_server_def data_packet_data 3 1 Let_def by (simp add: 2)
qed

theorem thread_update_witness:
  "\<exists>t' k. (\<forall>n\<ge>k. bind_res (run_callback Cb_stop_reply (data_packet ''c'') (data_packet ''T05thread:1;'')
       ((mb_new (replicate 13 0x2000))\<lparr>m_rtos_avail := True\<rparr>)) (serve n (memory_server (\<lambda>_. 0))) = Inr t')
     \<and> length (t_info (m_threading t')) = 1"
proof -
  let ?t = "(mb_new (replicate 13 0x2000))\<lparr>m_rtos_avail := True\<rparr>"
  have "symbol_addr ?t s = 0x2000" for s
    using symbol_index_bound [of s] by (simp add: symbol_addr_def mb_new_fields Symbol_Count_def)
  then have s: "symbols32 ?t" by (simp add: symbols32_def)
  have z: "mem_word (\<lambda>_. 0) a = 0" for a by (simp add: mem_word_def mem_bytes_def upt_rec)
  have "update_result (\<lambda>_. 0) ?t = (threadid_default, [], [])"
    by (simp add: update_result_def z mb_new_fields)
  from thread_update [OF memory_server_answers _ s _ _ _ _ this, of "CHR ''0''" "CHR ''5''"
      "[''thread:1'']" "[]" "data_packet ''c''"]
  obtain t' k where 1: "\<forall>n\<ge>k. bind_res (run_callback Cb_stop_reply (data_packet ''c'')
      (data_packet ''T05thread:1;'') ?t) (serve n (memory_server (\<lambda>_. 0))) = Inr t'"
    and 2: "t_info (m_threading t') = [execution_info ?t]" by (auto simp: mb_new_fields)
  show ?thesis by (intro exI [of _ t'] exI [of _ k] conjI) (fact 1, simp add: 2)
qed

subsection \<open>Well-formed lists\<close>

text \<open>A chain of list items, each with the control block it belongs to.\<close>

fun links :: "memory \<Rightarrow> u64 \<Rightarrow> (u64 \<times> u64) list \<Rightarrow> bool" where
  "links mem p [] = True"
| "links mem p ((q, tcb) # es) =
     (q = p \<and> p \<noteq> 0 \<and> mem_word mem (p + 12) = tcb \<and> links mem (mem_word mem (p + 8)) es)"

definition task_list :: "memory \<Rightarrow> u64 \<Rightarrow> (u64 \<times> u64) list \<Rightarrow> bool" where
  "task_list mem a es =
     (if a = 0 then es = []
      else length es < 2 ^ 32 \<and> mem_word mem a = of_nat (length es) \<and> distinct (map fst es)
        \<and> links mem (mem_word mem (a + 16)) es)"

lemma walk_links:
  "links mem p es \<Longrightarrow> distinct (map fst es) \<Longrightarrow> prev \<notin> fst ` set es \<Longrightarrow>
     walk_elems mem (length es) p prev = map snd es"
proof (induction es arbitrary: p prev)
  case (Cons e es)
  then show ?case by (cases e) auto
qed simp

lemma list_tasks_wf: "task_list mem a es \<Longrightarrow> list_tasks mem a = map snd es"
proof (cases "a = 0")
  case False
  assume wf: "task_list mem a es"
  let ?p = "mem_word mem (a + 16)"
  have small: "links mem p es \<Longrightarrow> addr32 p \<Longrightarrow> - 1 \<notin> fst ` set es" for p
  proof (induction es arbitrary: p)
    case (Cons e es)
    moreover have "(- 1 :: u64) \<noteq> p"
      using Cons.prems(2) by (auto simp: unsigned_minus_1_eq_mask mask_eq_exp_minus_1)
    moreover have "links mem (mem_word mem (p + 8)) es \<Longrightarrow> - 1 \<notin> fst ` set es"
      using Cons.IH mem_word_bound by blast
    ultimately show ?case by (cases e) simp
  qed simp
  have "unat (mem_word mem a) = length es"
    using wf False by (simp add: task_list_def unat_of_nat take_bit_nat_eq_self)
  with wf False walk_links [of mem ?p es "- 1"] small [of ?p] show ?thesis
    by (simp add: list_tasks_def task_list_def)
qed (simp add: task_list_def list_tasks_def)

lemma name_tasks_fields:
  assumes "name_tasks mp mem cur tcbs m = (infos, m')"
  shows "map thread_tcb infos = tcbs \<and> map ti_name infos = map (task_name mem) tcbs
    \<and> (\<forall>info\<in>set infos. ti_exists info
        \<and> ti_extra info = (if thread_tcb info = cur then ''State: Running'' else []))"
  using assms
proof (induction tcbs arbitrary: m infos)
  case (Cons tcb tcbs)
  obtain tid m1 where a: "assign_id mp tcb m = (tid, m1)" by fastforce
  obtain rest m2 where n: "name_tasks mp mem cur tcbs m1 = (rest, m2)" by fastforce
  from Cons.prems a n have "infos = task_info mem cur tcb tid # rest" "m2 = m'" by simp_all
  with Cons.IH n show ?case by (simp add: task_info_def)
qed simp

text \<open>C2: When the lists in memory are well formed, the target ends the update knowing the current
  execution followed by exactly the tasks on the ready lists it visits and on the five other
  lists, in list order, with the names stored in their control blocks; the running task, and no
  other, is marked as running. The ready lists visited are those below the priority read from the
  system.\<close>

theorem thread_update_tasks:
  assumes "answers_reads mem remote" and "m_conn t = []" and "symbols32 t" and "m_rtos_avail t"
    and "plain [a, b]" and "\<forall>f\<in>set fs. field_ok f" and "field_ok rest"
    and "mem_word mem (symbol_addr t Symbol_uxCurrentNumberOfTasks) \<noteq> 0"
    and "list_all2 (task_list mem) (list_addresses (ready_count mem t) t) ess"
  shows "\<exists>t' k.
      (\<forall>n\<ge>k. bind_res (run_callback Cb_stop_reply req
            (data_packet (CHR ''T'' # a # b # put_fields fs @ rest)) t) (serve n remote) = Inr t')
    \<and> map thread_tcb (t_info (m_threading t')) = 1 # concat (map (map snd) ess)
    \<and> map ti_name (t_info (m_threading t'))
        = ''Current Execution'' # map (task_name mem) (concat (map (map snd) ess))
    \<and> (\<forall>info\<in>set (tl (t_info (m_threading t'))). ti_exists info \<and> ti_extra info =
        (if thread_tcb info = mem_word mem (symbol_addr t Symbol_pxCurrentTCB)
         then ''State: Running'' else []))"
proof -
  let ?as = "list_addresses (ready_count mem t) t"
  obtain cid tasks m where u: "update_result mem t = (cid, tasks, m)" by (cases "update_result mem t") auto
  have "map (list_tasks mem) ?as = map (map snd) ess"
    using assms(9) by (induction rule: list_all2_induct) (simp_all add: list_tasks_wf)
  with u assms(8) obtain m1
    where "name_tasks (mb_multiprocess t) mem (mem_word mem (symbol_addr t Symbol_pxCurrentTCB))
      (concat (map (map snd) ess)) m1 = (tasks, m)"
    by (auto simp: update_result_def Let_def split: prod.splits if_splits)
  note f = name_tasks_fields [OF this]
  from thread_update_aux [OF assms(1-7) u, of req] f show ?thesis
    by (elim exE, intro exI conjI) (assumption | auto simp: execution_info_def)+
qed

text \<open>A system with one task: the words of its data structures, byte by byte.\<close>

definition one_task_memory :: memory where
  "one_task_memory a =
     (case map_of [(0x101, 5), (0x104, 1), (0x108, 1), (0x200, 1), (0x211, 3), (0x308, 8),
                   (0x309, 2), (0x30D, 5), (0x534, 65), (0x535, 66)] a of Some b \<Rightarrow> b | None \<Rightarrow> 0)"

lemma one_task_words:
  "mem_word one_task_memory 0x100 = 0x500" "mem_word one_task_memory 0x104 = 1"
  "mem_word one_task_memory 0x108 = 1" "mem_word one_task_memory 0x200 = 1"
  "mem_word one_task_memory 0x210 = 0x300" "mem_word one_task_memory 0x30C = 0x500"
  by (simp_all add: mem_word_def mem_bytes_def upt_rec one_task_memory_def)

lemma one_task_name: "task_name one_task_memory 0x500 = ''AB''"
proof -
  have "mem_bytes one_task_memory 0x534 10 = [65, 66, 0, 0, 0, 0, 0, 0, 0, 0]"
    by (simp add: mem_bytes_def upt_rec one_task_memory_def)
  moreover have "map chr8 [65, 66] = ''AB''" by code_simp
  ultimately show ?thesis by (simp add: task_name_def)
qed

theorem thread_update_tasks_witness:
  "\<exists>t' k. (\<forall>n\<ge>k. bind_res (run_callback Cb_stop_reply (data_packet ''c'') (data_packet ''T05thread:1;'')
       ((mb_new [0, 0x100, 0x200, 0, 0, 0, 0, 0, 0, 0, 0x104, 0x108, 0])\<lparr>m_rtos_avail := True\<rparr>))
         (serve n (memory_server one_task_memory)) = Inr t')
     \<and> map thread_tcb (t_info (m_threading t')) = [1, 0x500]
     \<and> map ti_name (t_info (m_threading t')) = [''Current Execution'', ''AB'']"
proof -
  let ?syms = "[0, 0x100, 0x200, 0, 0, 0, 0, 0, 0, 0, 0x104, 0x108, 0] :: u64 list"
  let ?ess = "[[(0x300, 0x500)], [], [], [], [], []] :: (u64 \<times> u64) list list"
  let ?t = "(mb_new ?syms)\<lparr>m_rtos_avail := True\<rparr>"
  have sym: "symbol_addr ?t = (\<lambda>s. ?syms ! symbol_index s)"
    by (simp add: symbol_addr_def mb_new_fields fun_eq_iff)
  have "addr32 (?syms ! symbol_index s)" for s by (cases s) simp_all
  then have s: "symbols32 ?t" by (simp only: symbols32_def sym simp_thms)
  have conn: "m_conn ?t = []" and avail: "m_rtos_avail ?t" by (simp_all add: mb_new_fields)
  have sig: "plain [CHR ''0'', CHR ''5'']" and fields: "\<forall>f\<in>set [''thread:1'']. field_ok f" by simp_all
  have c: "mem_word one_task_memory (symbol_addr ?t Symbol_uxCurrentNumberOfTasks) \<noteq> 0"
    by (simp add: sym one_task_words)
  have "list_addresses (ready_count one_task_memory ?t) ?t = [0x200, 0, 0, 0, 0, 0]"
    by (simp add: list_addresses_def ready_count_def sym one_task_words upt_rec)
  then have l: "list_all2 (task_list one_task_memory)
      (list_addresses (ready_count one_task_memory ?t) ?t) ?ess"
    by (simp add: task_list_def one_task_words)
  let ?rep = "data_packet (CHR ''T'' # CHR ''0'' # CHR ''5'' # put_fields [''thread:1''] @ [])"
  obtain t' k where 1: "\<forall>n\<ge>k. bind_res (run_callback Cb_stop_reply (data_packet ''c'') ?rep ?t)
        (serve n (memory_server one_task_memory)) = Inr t'"
    and 2: "map thread_tcb (t_info (m_threading t'))
        = 1 # concat (map (map snd) ?ess)"
    and 3: "map ti_name (t_info (m_threading t')) = ''Current Execution''
        # map (task_name one_task_memory) (concat (map (map snd) ?ess))"
    using thread_update_tasks [OF memory_server_answers conn s avail sig fields _ c l, of "[]" "data_packet ''c''"]
    by (elim exE conjE meta_impE) (simp, rule that)
  have "?rep = data_packet ''T05thread:1;''" by simp
  with 1 2 3 show ?thesis
    by (intro exI [of _ t'] exI [of _ k] conjI) (simp_all add: one_task_name)
qed

end
