(* ===== verification/Mb_Stop_Reply.thy ===== *)
theory Mb_Stop_Reply
  imports Mb_Walk
begin

section \<open>Stop replies\<close>

text \<open>
  What becomes of the remote's reply to a held-back packet, with RTOS support off, when the target
  answers at once, and with it on, when the thread update comes first.
\<close>

text \<open>In both modes a \<open>T\<close> reply comes to \<open>stop_reply_done\<close>, with the reply kept and nothing outstanding.\<close>

lemma stop_reply_walk:
  assumes "hd d = CHR ''T''" and "d \<noteq> []" and "m_conn t = []"
    and "m_rtos_avail t \<Longrightarrow> answers_reads mem remote \<and> symbols32 t"
  shows "\<exists>w. reaches remote (run_callback Cb_stop_reply req (data_packet d) t) (stop_reply_done w)
    \<and> m_conn w = [] \<and> m_current_thread_id w = m_current_thread_id t \<and> m_stop_reply_response w = data_packet d
    \<and> (\<not> m_rtos_avail t \<longrightarrow> w = t\<lparr>m_stop_reply_response := data_packet d\<rparr>)"
proof -
  let ?t = "t\<lparr>m_stop_reply_response := data_packet d\<rparr>"
  have run: "run_callback Cb_stop_reply req (data_packet d) t = update_threads (Some Stop_Reply_Done) ?t"
    using assms(1,2) by (cases d) (simp_all add: run_callback_def cb_stop_reply_def sv_index_def)
  show ?thesis
  proof (cases "m_rtos_avail t")
    case False
    then have "update_threads (Some Stop_Reply_Done) ?t = stop_reply_done ?t"
      by (simp add: update_threads_def run_done_cb_def)
    with assms(3) show ?thesis unfolding run by (intro exI [of _ ?t]) auto
  next
    case True
    obtain cid tasks m where r: "update_result mem ?t = (cid, tasks, m)"
      by (cases "update_result mem ?t") auto
    have s: "symbols32 ?t" using assms(4) [OF True] symbol_addr_cong(1) [of ?t t] by simp
    obtain w where w: "reaches remote (update_threads (Some Stop_Reply_Done) ?t) (update_threads_done w)"
      "m_conn w = []" "same_context w ?t" "done_cb (m_threading w) = Some Stop_Reply_Done"
      using update_walk [OF _ _ s _ r, of remote "Some Stop_Reply_Done"] assms(3) assms(4) [OF True] True by auto
    let ?th = "(m_threading w)\<lparr>t_lists := [], threads_count := of_nat (length (t_info (m_threading w)))\<rparr>"
    let ?w = "w\<lparr>m_threading := ?th, lists_gen := lists_gen w + 1, m_threads_map :=
        smap_keep (\<lambda>tcb. \<exists>info\<in>set (t_info ?th). tcb = thread_tcb info) (m_threads_map w)\<rparr>"
    have "update_threads_done w = stop_reply_done ?w"
      using w(4) by (simp add: update_threads_done_def run_done_cb_def Let_def)
    with w(1-3) True show ?thesis unfolding run by (intro exI [of _ ?w]) (simp add: same_context_def)
  qed
qed

lemma reaches_settled:
  assumes "reaches remote X Y" and "\<And>n. bind_res Y (serve n remote) = Z"
  shows "\<exists>k. \<forall>n\<ge>k. bind_res X (serve n remote) = Z"
proof -
  obtain k where k: "\<And>n. bind_res X (serve (k + n) remote) = bind_res Y (serve n remote)"
    using assms(1) unfolding reaches_def by blast
  have "bind_res X (serve n remote) = Z" if "k \<le> n" for n
    using k [of "n - k"] that assms(2) by simp
  then show ?thesis by blast
qed

text \<open>C15: When the remote answers a held-back packet with \<open>T\<close>, two more characters and a list of
  fields, the client is sent, as the only packet, the same signal and fields, in order, but with every
  \<open>thread:\<close> field naming the thread selected with \<open>Hg\<close>; text after the last \<open>;\<close> is dropped, and a
  reply without a \<open>thread:\<close> field gets none. With RTOS support off this happens at once, and nothing
  else of the target changes; with it on, after the thread update against the remote's memory.\<close>

theorem stop_reply_rewritten:
  assumes "m_conn t = []" and "plain [a, b]" and "\<forall>f\<in>set fs. field_ok f" and "field_ok rest"
    and "m_rtos_avail t \<Longrightarrow> answers_reads mem remote \<and> symbols32 t"
  shows "\<exists>t' k. (\<forall>n\<ge>k. bind_res (run_callback Cb_stop_reply req
            (data_packet (CHR ''T'' # a # b # put_fields fs @ rest)) t) (serve n remote) = Inr t')
    \<and> m_conn t' = [Internal_Response (data_packet (CHR ''T'' # a # b #
              put_fields (map (rewrite_field (tid_to_string (m_current_thread_id t))) fs)))]
    \<and> m_stop_reply_response t' = empty_packet
    \<and> (\<not> m_rtos_avail t \<longrightarrow> t' = t\<lparr>m_conn := m_conn t', m_stop_reply_response := empty_packet\<rparr>)"
proof -
  let ?d = "CHR ''T'' # a # b # put_fields fs @ rest"
  obtain w where w: "reaches remote (run_callback Cb_stop_reply req (data_packet ?d) t) (stop_reply_done w)"
    "m_conn w = []" "m_current_thread_id w = m_current_thread_id t" "m_stop_reply_response w = data_packet ?d"
    "\<not> m_rtos_avail t \<Longrightarrow> w = t\<lparr>m_stop_reply_response := data_packet ?d\<rparr>"
    using stop_reply_walk [of ?d t mem remote req] assms(1,5) by auto
  let ?q = "stop_reply_for [CHR ''T'', a, b] fs (tid_to_string (m_current_thread_id t))"
  let ?t' = "(push_internal_response ?q w)\<lparr>m_stop_reply_response := empty_packet\<rparr>"
  have "pkt_data (m_stop_reply_response w) = [CHR ''T'', a, b] @ put_fields fs @ rest" by (simp add: w(4))
  from stop_reply_done_spec [OF this _ _ assms(3)] assms(2,4)
  have d: "stop_reply_done w = Inr ?t'"
    by (simp add: w(3,4) reset_def empty_packet_def data_packet_def)
  have c: "m_conn ?t' = [Internal_Response ?q]" using w(2) by (simp add: push_internal_response_def)
  have "bind_res (stop_reply_done w) (serve n remote) = Inr ?t'" for n
    using d serve_done [OF c] by simp
  from reaches_settled [OF w(1) this] obtain k
    where "\<forall>n\<ge>k. bind_res (run_callback Cb_stop_reply req (data_packet ?d) t) (serve n remote) = Inr ?t'" by blast
  with c w(5) show ?thesis
    by (intro exI [of _ ?t'] exI [of _ k]) (simp add: stop_reply_for_def push_internal_response_def)
qed

theorem stop_reply_rewritten_witness:
  "\<exists>t' k. (\<forall>n\<ge>k. bind_res (run_callback Cb_stop_reply (data_packet ''c'')
      (data_packet ''T05thread:1;swbreak:;core:0'') ((mb_new (replicate 13 0x2000))\<lparr>m_rtos_avail := True\<rparr>))
        (serve n (memory_server (\<lambda>_. 0))) = Inr t')
    \<and> m_conn t' = [Internal_Response (data_packet (''T05thread:'' @
          tid_to_string (m_current_thread_id (mb_new (replicate 13 0x2000))) @ '';swbreak:;''))]"
proof -
  let ?t = "(mb_new (replicate 13 0x2000))\<lparr>m_rtos_avail := True\<rparr>"
  have "symbol_addr ?t s = 0x2000" for s
    using symbol_index_bound [of s] by (simp add: symbol_addr_def mb_new_fields Symbol_Count_def)
  then have "symbols32 ?t" by (simp add: symbols32_def)
  then have "m_rtos_avail ?t \<Longrightarrow> answers_reads (\<lambda>_. 0) (memory_server (\<lambda>_. 0)) \<and> symbols32 ?t"
    using memory_server_answers by blast
  from stop_reply_rewritten [OF _ _ _ _ this, of "CHR ''0''" "CHR ''5''" "[''thread:1'', ''swbreak:'']" "''core:0''"
      "data_packet ''c''"]
  show ?thesis by (auto simp: mb_new_fields rewrite_field_def)
qed

text \<open>C29: Which replies to a held-back packet the target survives, whether RTOS support is off or on (with
  a remote that serves a memory): exactly those that begin with \<open>T\<close> and have three characters; then the
  client is sent one packet in the end. A shorter \<open>T\<close> reply raises \<open>std::out_of_range\<close> (after the
  thread update, if there is one), an empty one reads past the end of the data, and every other kind
  of stop reply, such as \<open>S05\<close>, \<open>W00\<close> or \<open>OK\<close>, raises \<open>std::system_error\<close>; nothing catches it.\<close>

theorem stop_reply_kinds:
  assumes "plain d" and "m_conn t = []"
    and "m_rtos_avail t \<Longrightarrow> answers_reads mem remote \<and> symbols32 t"
  shows "\<exists>r k. (\<forall>n\<ge>k. bind_res (run_callback Cb_stop_reply req (data_packet d) t) (serve n remote) = r)
    \<and> (case r of
         Inr t' \<Rightarrow> length d \<ge> 3 \<and> hd d = CHR ''T'' \<and> (\<exists>q. m_conn t' = [Internal_Response q])
       | Inl e \<Rightarrow> d = [] \<and> e = Undefined
           \<or> d \<noteq> [] \<and> hd d \<noteq> CHR ''T'' \<and> e = System_Error
           \<or> d \<noteq> [] \<and> hd d = CHR ''T'' \<and> length d < 3 \<and> e = Out_Of_Range)"
proof (cases "d \<noteq> [] \<and> hd d = CHR ''T''")
  case False
  then have "run_callback Cb_stop_reply req (data_packet d) t = Inl (if d = [] then Undefined else System_Error)"
    by (cases d) (simp_all add: run_callback_def cb_stop_reply_def sv_index_def)
  with False show ?thesis
    by (intro exI [of _ "Inl (if d = [] then Undefined else System_Error)"] exI [of _ 0]) auto
next
  case True
  obtain w where w: "reaches remote (run_callback Cb_stop_reply req (data_packet d) t) (stop_reply_done w)"
    "m_conn w = []" "m_stop_reply_response w = data_packet d"
    using stop_reply_walk [of d t mem remote req] True assms(2,3) by auto
  show ?thesis
  proof (cases "length d < 3")
    case short: True
    moreover have "plain (take 3 d)" using assms(1) by (rule plain_take)
    ultimately have "stop_reply_done w = Inl Out_Of_Range"
      by (simp add: w(3) stop_reply_done_def sv_substr_n_def sv_substr_def)
    then have "bind_res (stop_reply_done w) (serve n remote) = Inl Out_Of_Range" for n by simp
    from reaches_settled [OF w(1) this] obtain k
      where "\<forall>n\<ge>k. bind_res (run_callback Cb_stop_reply req (data_packet d) t) (serve n remote) = Inl Out_Of_Range"
      by blast
    with True short show ?thesis by (intro exI [of _ "Inl Out_Of_Range"] exI [of _ k]) simp
  next
    case False
    obtain fs rest where f: "drop 3 d = put_fields fs @ rest" "\<forall>f\<in>set fs. field_ok f" "field_ok rest"
      using fields_exist [OF plain_drop [OF assms(1)]] by blast
    have "pkt_data (m_stop_reply_response w) = take 3 d @ put_fields fs @ rest"
      by (simp add: w(3) f(1) [symmetric])
    from stop_reply_done_spec [OF this _ plain_take [OF assms(1)] f(2)] f(3) False
    obtain t' q where t': "stop_reply_done w = Inr t'" "m_conn t' = [Internal_Response q]"
      using w(2) by (simp add: push_internal_response_def)
    have "bind_res (stop_reply_done w) (serve n remote) = Inr t'" for n
      using t'(1) serve_done [OF t'(2)] by simp
    from reaches_settled [OF w(1) this] obtain k
      where "\<forall>n\<ge>k. bind_res (run_callback Cb_stop_reply req (data_packet d) t) (serve n remote) = Inr t'" by blast
    with True False t'(2) show ?thesis by (intro exI [of _ "Inr t'"] exI [of _ k]) simp
  qed
qed

theorem stop_reply_kinds_witness:
  "\<exists>k. \<forall>n\<ge>k. bind_res (run_callback Cb_stop_reply (data_packet ''c'') (data_packet ''T0'')
      ((mb_new (replicate 13 0x2000))\<lparr>m_rtos_avail := True\<rparr>)) (serve n (memory_server (\<lambda>_. 0))) = Inl Out_Of_Range"
proof -
  let ?t = "(mb_new (replicate 13 0x2000))\<lparr>m_rtos_avail := True\<rparr>"
  have "symbol_addr ?t s = 0x2000" for s
    using symbol_index_bound [of s] by (simp add: symbol_addr_def mb_new_fields Symbol_Count_def)
  then have "symbols32 ?t" by (simp add: symbols32_def)
  then have "m_rtos_avail ?t \<Longrightarrow> answers_reads (\<lambda>_. 0) (memory_server (\<lambda>_. 0)) \<and> symbols32 ?t"
    using memory_server_answers by blast
  moreover have "plain ''T0''" "m_conn ?t = []" by (simp_all add: mb_new_fields)
  ultimately obtain r k where k: "\<forall>n\<ge>k. bind_res (run_callback Cb_stop_reply (data_packet ''c'') (data_packet ''T0'') ?t)
        (serve n (memory_server (\<lambda>_. 0))) = r"
    and r: "case r of Inr t' \<Rightarrow> length ''T0'' \<ge> 3 \<and> hd ''T0'' = CHR ''T'' \<and> (\<exists>q. m_conn t' = [Internal_Response q])
       | Inl e \<Rightarrow> ''T0'' = [] \<and> e = Undefined \<or> ''T0'' \<noteq> [] \<and> hd ''T0'' \<noteq> CHR ''T'' \<and> e = System_Error
           \<or> ''T0'' \<noteq> [] \<and> hd ''T0'' = CHR ''T'' \<and> length ''T0'' < 3 \<and> e = Out_Of_Range"
    using stop_reply_kinds [of "''T0''" ?t "\<lambda>_. 0" "memory_server (\<lambda>_. 0)" "data_packet ''c''"] by blast
  from r have "r = Inl Out_Of_Range" by (cases r) simp_all
  with k show ?thesis by blast
qed

end
