(* ===== verification/Mb_Register_List.thy ===== *)
theory Mb_Register_List
  imports Mb_Behaviour
begin

section \<open>The register list of a thread\<close>

text \<open>
  The exchange that answers a register request for a thread that is not running, and the text the
  client gets, against a reference description of each register.
\<close>

subsection \<open>Reference text\<close>

definition register_text :: "byte list \<Rightarrow> u64 \<Rightarrow> microblaze_regnum \<Rightarrow> string" where
  "register_text ctx sp r =
     (if r = MICROBLAZE_R0_REGNUM then ''00000000''
      else if r = MICROBLAZE_R1_REGNUM then concat (map hex_byte (le_bytes 4 sp))
      else if r \<ge> MICROBLAZE_EAR_REGNUM then ''xxxxxxxx''
      else concat (map hex_byte (take 4 (drop (nat (non_fpu_offset r)) ctx))))"

lemma register_kinds:
  "non_fpu_offset r = register_unused \<longleftrightarrow> r = MICROBLAZE_R0_REGNUM"
  "non_fpu_offset r = register_sp \<longleftrightarrow> r = MICROBLAZE_R1_REGNUM"
  by (cases r; simp add: register_unused_def register_sp_def register_unavail_def)+

lemma register_unavail_kind:
  "non_fpu_offset r = register_unavail \<longleftrightarrow> MICROBLAZE_EAR_REGNUM \<le> r"
  by (cases r; simp add: less_eq_microblaze_regnum_def regnum_def microblaze_regs_def
      register_unused_def register_sp_def register_unavail_def)

lemma stacked_offset:
  assumes "r \<noteq> MICROBLAZE_R0_REGNUM" and "r \<noteq> MICROBLAZE_R1_REGNUM" and "\<not> MICROBLAZE_EAR_REGNUM \<le> r"
  shows "4 \<le> non_fpu_offset r \<and> non_fpu_offset r + 4 \<le> 132"
  using assms offset_cases [of r] register_kinds [of r] register_unavail_kind [of r] by blast

subsection \<open>Putting the bytes\<close>

lemma upt_four: "[0..<4] = [0, 1, 2, 3 :: nat]"
  by (simp add: upt_rec)

lemma take_four:
  "n + 4 \<le> length xs \<Longrightarrow> take 4 (drop n xs) = map (\<lambda>j. xs ! (n + j)) [0..<4]"
  by (rule nth_equalityI) simp_all

lemma le_bytes_four: "le_bytes 4 sp = map (\<lambda>j. le_bytes 4 sp ! j) [0..<4]"
  using map_nth [of "le_bytes 4 sp"] by simp

lemma put_reg_bytes_map:
  assumes "\<forall>j\<in>set js. reg_byte_text bin sp offs j = Inr (f j) \<and> plain (f j)" and "plain s"
  shows "put_reg_bytes bin sp offs js (open_packet s) = Inr (open_packet (s @ concat (map f js)))"
  using assms by (induction js arbitrary: s) simp_all

lemma put_register_ok:
  assumes "132 \<le> length ctx" and "plain s"
  shows "put_reg_bytes ctx sp (non_fpu_offset r) [0..<4] (open_packet s)
    = Inr (open_packet (s @ register_text ctx sp r))"
proof -
  note kinds = register_kinds register_unavail_kind
  have z: "hex_byte 0 = ''00''" by code_simp
  have x: "plain ''xx''" by simp
  consider "r = MICROBLAZE_R0_REGNUM" | "r = MICROBLAZE_R1_REGNUM"
    | "r \<noteq> MICROBLAZE_R0_REGNUM" "r \<noteq> MICROBLAZE_R1_REGNUM" "MICROBLAZE_EAR_REGNUM \<le> r"
    | "r \<noteq> MICROBLAZE_R0_REGNUM" "r \<noteq> MICROBLAZE_R1_REGNUM" "\<not> MICROBLAZE_EAR_REGNUM \<le> r" by blast
  then show ?thesis
  proof cases
    case 1
    then have "concat (map (\<lambda>j. hex_byte 0) [0..<4 :: nat]) = register_text ctx sp r"
      by (simp add: register_text_def z upt_four)
    then show ?thesis
      using put_reg_bytes_map [of "[0..<4]" ctx sp "non_fpu_offset r" "\<lambda>_. hex_byte 0" s] assms 1
      by (simp add: reg_byte_text_def register_unused_def)
  next
    case 2
    then have "concat (map (\<lambda>j. hex_byte (le_bytes 4 sp ! j)) [0..<4]) = register_text ctx sp r"
      by (subst register_text_def, subst (2) le_bytes_four) (simp add: comp_def)
    then show ?thesis
      using put_reg_bytes_map [of "[0..<4]" ctx sp "non_fpu_offset r"
          "\<lambda>j. hex_byte (le_bytes 4 sp ! j)" s] assms 2
      by (simp add: reg_byte_text_def register_unused_def register_sp_def register_unavail_def)
  next
    case 3
    then have "non_fpu_offset r = register_unavail" by (simp add: register_unavail_kind)
    moreover have "concat (map (\<lambda>j. ''xx'') [0..<4 :: nat]) = register_text ctx sp r"
      using 3 by (simp add: register_text_def upt_four)
    ultimately show ?thesis
      using put_reg_bytes_map [of "[0..<4]" ctx sp "non_fpu_offset r" "\<lambda>_. ''xx''" s] assms x
      by (simp add: reg_byte_text_def register_unused_def register_unavail_def)
  next
    case 4
    note offs = stacked_offset [OF 4]
    let ?o = "nat (non_fpu_offset r)"
    from offs assms(1) have l: "?o + 4 \<le> length ctx" by linarith
    then have in_ctx: "?o + j < length ctx" if "j < 4" for j using that by linarith
    from l have "concat (map (\<lambda>j. hex_byte (ctx ! (?o + j))) [0..<4]) = register_text ctx sp r"
      using 4 by (simp add: register_text_def take_four comp_def)
    then show ?thesis
      using put_reg_bytes_map [of "[0..<4]" ctx sp "non_fpu_offset r"
          "\<lambda>j. hex_byte (ctx ! (?o + j))" s] assms offs in_ctx
      by (simp add: reg_byte_text_def register_unused_def register_sp_def register_unavail_def)
  qed
qed

lemma plain_hex_bytes [simp]: "plain (concat (map hex_byte bs))"
  by (induction bs) simp_all

lemma plain_register_text [simp]: "plain (register_text ctx sp r)"
  by (simp add: register_text_def)

lemma put_registers_ok:
  assumes "132 \<le> length ctx" and "plain s"
  shows "put_registers ctx sp
      (map (\<lambda>r. \<lparr>reg_offset = non_fpu_offset r, width_bits = portREG_SIZE\<rparr>) rs) (open_packet s)
    = Inr (open_packet (s @ concat (map (register_text ctx sp) rs)))"
  using assms
  by (induction rs arbitrary: s) (simp_all add: portREG_SIZE_def put_register_ok)

subsection \<open>Contexts that are too short\<close>

lemma reg_byte_text_error: "reg_byte_text bin sp offs j = Inl e \<Longrightarrow> e = Undefined"
  by (auto simp: reg_byte_text_def split: if_splits)

lemma put_reg_bytes_error:
  assumes "j \<in> set js" and "reg_byte_text bin sp offs j = Inl Undefined" and "plain s"
  shows "put_reg_bytes bin sp offs js (open_packet s) = Inl Undefined"
  using assms(1,3)
proof (induction js arbitrary: s)
  case (Cons i js)
  show ?case
  proof (cases "reg_byte_text bin sp offs i")
    case (Inl e)
    then show ?thesis using reg_byte_text_error by simp
  next
    case (Inr x)
    with Cons assms(2) reg_byte_text_plain [OF Inr] show ?thesis by auto
  qed
qed simp

lemma put_reg_bytes_total:
  "plain s \<Longrightarrow> put_reg_bytes bin sp offs js (open_packet s) = Inl Undefined
    \<or> (\<exists>u. plain u \<and> put_reg_bytes bin sp offs js (open_packet s) = Inr (open_packet u))"
proof (induction js arbitrary: s)
  case (Cons i js)
  show ?case
  proof (cases "reg_byte_text bin sp offs i")
    case (Inl e)
    then show ?thesis using reg_byte_text_error by simp
  next
    case (Inr x)
    with Cons reg_byte_text_plain [OF Inr] show ?thesis by simp
  qed
qed auto

lemma put_registers_error:
  assumes "r \<in> set rs" and "j < width_bits r div 8" and "plain s"
    and "reg_byte_text bin sp (reg_offset r) j = Inl Undefined"
  shows "put_registers bin sp rs (open_packet s) = Inl Undefined"
  using assms(1,3)
proof (induction rs arbitrary: s)
  case (Cons q rs)
  let ?p = "put_reg_bytes bin sp (reg_offset q) [0..<width_bits q div 8] (open_packet s)"
  from put_reg_bytes_total [OF Cons.prems(2)] consider "?p = Inl Undefined"
    | u where "plain u" "?p = Inr (open_packet u)" by blast
  then show ?case
  proof cases
    case 2
    then have "q \<noteq> r"
      using put_reg_bytes_error [of j "[0..<width_bits q div 8]" bin sp "reg_offset q" s]
        assms(2,4) Cons.prems(2) by auto
    with Cons 2 show ?thesis by auto
  qed simp
qed simp

subsection \<open>The exchange\<close>

definition register_list :: "byte list \<Rightarrow> u64 \<Rightarrow> string" where
  "register_list ctx sp = concat (map (register_text ctx sp) microblaze_regs)"

lemma plain_concat: "\<forall>s\<in>set ss. plain s \<Longrightarrow> plain (concat ss)"
  by (induction ss) simp_all

lemma plain_register_list [simp]: "plain (register_list ctx sp)"
  unfolding register_list_def by (rule plain_concat) simp

lemma cb_registers_ok:
  assumes "r_stacking (m_registers t) = Some microblaze_non_fpu_stacking"
    and "pkt_data rep = bin2hex ctx []" and "132 \<le> length ctx"
  shows "cb_registers sp rep t
    = Inr (push_internal_response (data_packet (register_list ctx (sp + 132))) t)"
proof -
  have "hex2bin_vec 1 (bin2hex ctx []) [] = (ctx, length ctx)" by (simp add: hex2bin_vec_def)
  then show ?thesis
    using assms put_registers_ok [OF assms(3), of "[]" "sp + 132" microblaze_regs]
    by (simp add: cb_registers_def microblaze_non_fpu_stacking_def growth_value_def
        CONTEXT_SIZE_NON_FPU_def microblaze_non_fpu_registers_def register_list_def [symmetric])
qed

text \<open>The three steps of the exchange.\<close>

lemma registers_request:
  assumes "m_rtos_avail t" and "\<not> tid_eq (m_current_thread_id t) (current_thread_id (m_threading t))"
    and "m_threadid (m_current_thread_id t) = n" and "1 < n" and "unat n < 2 ^ 32"
  shows "process_request (data_packet (''g'' @ s)) t
    = Inr (push_internal_request (data_packet (read_req_text n 4)) Cb_stack_ptr
        (t\<lparr>m_registers := registers_default\<lparr>r_stacking := Some microblaze_non_fpu_stacking\<rparr>\<rparr>), True)"
proof -
  have e: "\<not> tid_eq (m_current_thread_id t) (make_threadid THREAD_ID_CURRENT_EXECUTION t)"
    using assms(3,4) by (auto simp: tid_eq_def make_threadid_pid_def THREAD_ID_CURRENT_EXECUTION_def)
  have "process_request (data_packet (''g'' @ s)) t = handle_registers_request t"
    by (simp add: process_request_def sv_index_def)
  also have "\<dots> = get_thread_reg_list n t"
    using assms(1-4) e by (simp add: handle_registers_request_def THREAD_ID_CURRENT_EXECUTION_def)
  finally show ?thesis
    using assms(5)
    by (simp add: get_thread_reg_list_def get_thread_stack_ptr_def read_memory_def mb_constants)
qed

lemma stack_ptr_reply:
  assumes "r_stacking (m_registers t) = Some microblaze_non_fpu_stacking"
    and "gdb_memory_read_reply rep = sp" and "unat sp < 2 ^ 32"
  shows "run_callback Cb_stack_ptr req rep t
    = Inr (push_internal_request (data_packet (read_req_text sp 132)) (Cb_registers sp)
        (t\<lparr>m_registers := (m_registers t)\<lparr>stack_ptr := sp\<rparr>\<rparr>))"
  using assms
  by (simp add: run_callback_def cb_stack_ptr_def get_thread_registers_def read_memory_def
      microblaze_non_fpu_stacking_def CONTEXT_SIZE_NON_FPU_def)

lemma registers_reply:
  assumes "r_stacking (m_registers t) = Some microblaze_non_fpu_stacking" and "length ctx = 132"
  shows "run_callback (Cb_registers sp) req (data_packet (bin2hex ctx [])) t
    = Inr (push_internal_response (data_packet (register_list ctx (sp + 132))) t)"
  using cb_registers_ok [OF assms(1), of "data_packet (bin2hex ctx [])" ctx] assms(2)
  by (simp add: run_callback_def)

text \<open>C11: A register request, while the selected thread is neither the pseudo-thread nor the
  running one, is answered by the target with two memory reads and one reply. The first read is
  for four bytes at the \<^emph>\<open>number\<close> of the selected thread, not at its control block. The value
  read is taken for the stack pointer and 132 bytes are read from there. The reply has the 59
  registers in GDB's order, each from its place in the saved frame, with \<open>r1\<close> pointing just
  above the frame.\<close>

theorem registers_exchange:
  assumes "m_rtos_avail t" and "\<not> tid_eq (m_current_thread_id t) (current_thread_id (m_threading t))"
    and "m_threadid (m_current_thread_id t) = n" and "1 < n" and "unat n < 2 ^ 32"
    and "unat sp < 2 ^ 32" and "length ctx = 132"
  shows "\<exists>t1 t2 t3.
      process_request (data_packet (''g'' @ s)) t = Inr (t1, True)
    \<and> m_conn t1 = m_conn t
        @ [Internal_Request (data_packet (read_req_text n 4)) (Some Cb_stack_ptr)]
    \<and> run_callback Cb_stack_ptr req1 (data_packet (bin2hex (le_bytes 4 sp) [])) t1 = Inr t2
    \<and> m_conn t2 = m_conn t1
        @ [Internal_Request (data_packet (read_req_text sp 132)) (Some (Cb_registers sp))]
    \<and> run_callback (Cb_registers sp) req2 (data_packet (bin2hex ctx [])) t2 = Inr t3
    \<and> m_conn t3 = m_conn t2 @ [Internal_Response (data_packet (register_list ctx (sp + 132)))]"
proof -
  let ?t1 = "push_internal_request (data_packet (read_req_text n 4)) Cb_stack_ptr
      (t\<lparr>m_registers := registers_default\<lparr>r_stacking := Some microblaze_non_fpu_stacking\<rparr>\<rparr>)"
  let ?t2 = "push_internal_request (data_packet (read_req_text sp 132)) (Cb_registers sp)
      (?t1\<lparr>m_registers := (m_registers ?t1)\<lparr>stack_ptr := sp\<rparr>\<rparr>)"
  have "gdb_memory_read_reply (data_packet (bin2hex (le_bytes 4 sp) [])) = sp"
    using read_reply_value [of "data_packet (bin2hex (le_bytes 4 sp) [])" "le_bytes 4 sp"]
      le_value_le_bytes [of sp 4] assms(6) by simp
  moreover have "r_stacking (m_registers ?t1) = Some microblaze_non_fpu_stacking"
    "r_stacking (m_registers ?t2) = Some microblaze_non_fpu_stacking"
    by (simp_all add: push_internal_request_def registers_default_def)
  ultimately show ?thesis
    using registers_request [OF assms(1-5), of s] stack_ptr_reply [of ?t1 _ sp req1]
      registers_reply [of ?t2 ctx sp req2] assms(6,7)
    by (intro exI [of _ ?t1] exI [of _ ?t2] exI conjI)
      (assumption | simp add: push_internal_request_def push_internal_response_def)+
qed

theorem registers_exchange_witness:
  "\<exists>t1. process_request (data_packet ''g'')
       ((mb_new (replicate 13 0))\<lparr>m_rtos_avail := True, m_current_thread_id := threadid_of_pid_tid 1 3\<rparr>)
     = Inr (t1, True) \<and> m_conn t1 = [Internal_Request (data_packet ''m3,4'') (Some Cb_stack_ptr)]"
proof -
  let ?t = "(mb_new (replicate 13 0))\<lparr>m_rtos_avail := True, m_current_thread_id := threadid_of_pid_tid 1 3\<rparr>"
  have "m_threadid (current_thread_id (m_threading (mb_new (replicate 13 0)))) = 1"
    by (simp add: mb_new_def make_empty_threading_def reset_threading_def add_current_execution_def
        make_threadid_pid_def THREAD_ID_CURRENT_EXECUTION_def Let_def)
  then have 1: "\<not> tid_eq (m_current_thread_id ?t) (current_thread_id (m_threading ?t))"
    by (simp add: tid_eq_def threadid_of_pid_tid_def)
  have 2: "m_threadid (m_current_thread_id ?t) = 3" by (simp add: threadid_of_pid_tid_def)
  have "read_req_text 3 4 = ''m3,4''"
    by (simp add: read_req_text_def hex_str.simps hex_digit_def)
  moreover from registers_exchange [OF _ 1 2, where sp = "0x2000" and ctx = "replicate 132 0" and s = "[]"] obtain t1
    where "process_request (data_packet (''g'' @ [])) ?t = Inr (t1, True)"
      "m_conn t1 = m_conn ?t @ [Internal_Request (data_packet (read_req_text 3 4)) (Some Cb_stack_ptr)]"
    by auto
  ultimately show ?thesis by (simp add: mb_new_fields)
qed

text \<open>C28: The reply to the register request is 472 characters long; a context of fewer than 132
  bytes, such as an error reply, makes the target read past the end of the bytes it decoded.\<close>

theorem register_list_bounds:
  assumes "r_stacking (m_registers t) = Some microblaze_non_fpu_stacking"
    and "pkt_data rep = bin2hex ctx []"
  shows "if 132 \<le> length ctx
    then length (register_list ctx (sp + 132)) = 472 \<and> cb_registers sp rep t
      = Inr (push_internal_response (data_packet (register_list ctx (sp + 132))) t)
    else cb_registers sp rep t = Inl Undefined"
proof (cases "132 \<le> length ctx")
  case True
  have "length (register_text ctx sp r) = 8" for sp r
  proof -
    have "length (concat (map hex_byte bs)) = 2 * length bs" for bs
      by (induction bs) simp_all
    with True stacked_offset [of r] show ?thesis by (auto simp: register_text_def)
  qed
  then have "length (concat (map (register_text ctx sp) rs)) = 8 * length rs" for sp rs
    by (induction rs) simp_all
  then have "length (register_list ctx (sp + 132)) = 472"
    by (simp add: register_list_def length_regs)
  with True cb_registers_ok [OF assms True] show ?thesis by simp
next
  case False
  let ?q = "\<lparr>reg_offset = non_fpu_offset MICROBLAZE_MSR_REGNUM, width_bits = portREG_SIZE\<rparr>"
  have q: "?q \<in> set microblaze_non_fpu_registers"
    unfolding microblaze_non_fpu_registers_def set_map using all_regs by (rule image_eqI [OF refl])
  have "reg_byte_text ctx (sp + 132) (reg_offset ?q) 3 = Inl Undefined"
    using False by (simp add: reg_byte_text_def register_unused_def register_sp_def register_unavail_def)
  from put_registers_error [OF q _ _ this, of "[]"]
  have "put_registers ctx (sp + 132) microblaze_non_fpu_registers (open_packet []) = Inl Undefined"
    by (simp add: portREG_SIZE_def)
  moreover have "hex2bin_vec 1 (bin2hex ctx []) [] = (ctx, length ctx)" by (simp add: hex2bin_vec_def)
  ultimately show ?thesis
    using assms False
    by (simp add: cb_registers_def microblaze_non_fpu_stacking_def growth_value_def
        CONTEXT_SIZE_NON_FPU_def)
qed

theorem register_list_bounds_witness:
  "cb_registers 0x2000 (data_packet (bin2hex [0xE0] []))
     ((mb_new (replicate 13 0))\<lparr>m_registers := registers_default\<lparr>r_stacking := Some microblaze_non_fpu_stacking\<rparr>\<rparr>)
   = Inl Undefined"
  using register_list_bounds [of "(mb_new (replicate 13 0))
      \<lparr>m_registers := registers_default\<lparr>r_stacking := Some microblaze_non_fpu_stacking\<rparr>\<rparr>"
      "data_packet (bin2hex [0xE0] [])" "[0xE0]"]
  by simp

end
