(* ===== verification/Mb_Symbols.thy ===== *)
theory Mb_Symbols
  imports Mb_Behaviour
begin

section \<open>The exchange of symbols\<close>

text \<open>
  A client that answers the target's symbol requests one after the other: what the target sends,
  the addresses it ends with and when it takes RTOS support to be available.
\<close>

subsection \<open>Runs of requests\<close>

fun run_requests :: "gdb_packet list \<Rightarrow> mb \<Rightarrow> (mb \<times> bool list) res" where
  "run_requests [] t = Inr (t, [])"
| "run_requests (p # ps) t =
     bind_res (process_request p t) (\<lambda>(t', h).
     bind_res (run_requests ps t') (\<lambda>(t'', hs). Inr (t'', h # hs)))"

text \<open>The request for a symbol, and the client's reply: the address, if it found one, and a name.\<close>

definition symbol_query :: "nat \<Rightarrow> gdb_packet" where
  "symbol_query i = data_packet (''qSymbol:'' @ bin2hex (map ord8 (fst (s_symbols_desc ! i))) [])"

definition symbol_reply :: "u64 \<times> string \<Rightarrow> gdb_packet" where
  "symbol_reply r =
     data_packet (''qSymbol:'' @ (if fst r = 0 then [] else hex_str (unat (fst r))) @ '':'' @ snd r)"

abbreviation name_ok :: "string \<Rightarrow> bool" where
  "name_ok nm \<equiv> plain nm \<and> nm \<noteq> []"

subsection \<open>One reply\<close>

lemma process_query: "pkt_type p = Pt_dat \<Longrightarrow> pkt_data p = CHR ''q'' # s \<Longrightarrow>
    process_request p t = handle_query_packet p t"
  by (simp add: process_request_def sv_index_def)

lemma strtoull16_reply:
  "strtoull16 ((if a = 0 then [] else hex_str (unat (a :: u64))) @ CHR '':'' # s) = (a, False)"
proof (cases "a = 0")
  case True
  then show ?thesis
    by (simp add: strtoull16_def strto16_def is_space_def strto16_sign_def strto16_prefix_def
        is_hex_def hexval_def split: list.split)
next
  case False
  have "unat a < 2 ^ LENGTH(64)" by (rule unsigned_less)
  moreover have "\<not> is_hex (CHR '':'')" by (simp add: is_hex_def hexval_def)
  ultimately show ?thesis
    using False strto16_digits [of "hex_str (unat a)" "CHR '':'' # s"] hex_str_all_hex
    by (auto simp: strtoull16_def)
qed

lemma symbol_reply_query:
  assumes "m_process_symbols t" and "name_ok (snd r)"
  shows "process_request (symbol_reply r) t = handle_symbol_reply (symbol_reply r) t"
proof -
  let ?v = "(if fst r = 0 then [] else hex_str (unat (fst r))) @ CHR '':'' # snd r"
  have d: "pkt_data (symbol_reply r) = ''qSymbol:'' @ ?v" by (simp add: symbol_reply_def)
  have "?v \<noteq> '':''" using assms(2) by (cases "hex_str (unat (fst r))") auto
  then have "pkt_data (symbol_reply r) \<noteq> ''qSymbol::''" by (simp only: d) simp
  moreover have "take 10 (pkt_data (symbol_reply r)) \<noteq> ''qSupported''"
    "take 17 (pkt_data (symbol_reply r)) \<noteq> ''qThreadExtraInfo,''"
    "take 12 (pkt_data (symbol_reply r)) \<noteq> ''qfThreadInfo''"
    "take 5 (pkt_data (symbol_reply r)) \<noteq> ''qCRC:''"
    "take 2 (pkt_data (symbol_reply r)) \<noteq> ''qC''"
    "take 8 (pkt_data (symbol_reply r)) = ''qSymbol:''"
    by (simp_all only: d) simp_all
  moreover have "process_request (symbol_reply r) t = handle_query_packet (symbol_reply r) t"
    by (rule process_query [where s = "''Symbol:'' @ ?v"]) (simp_all add: symbol_reply_def)
  ultimately show ?thesis
    using assms(1) unfolding handle_query_packet_eq Let_def by simp
qed

text \<open>The state after the value \<open>a\<close> has been stored.\<close>

definition store_symbol :: "u64 \<Rightarrow> mb \<Rightarrow> mb" where
  "store_symbol a t = t\<lparr>m_symbols := (m_symbols t)[m_current_symbol t := a],
     m_current_symbol := m_current_symbol t + 1\<rparr>"

lemma symbol_reply_step:
  assumes "m_process_symbols t" and "name_ok (snd r)" and "length (m_symbols t) = Symbol_Count"
    and "m_current_symbol t < Symbol_Count"
  shows "process_request (symbol_reply r) t =
    (let t1 = store_symbol (fst r) t
     in if m_current_symbol t + 1 = Symbol_Count
        then Inr (push_request (data_packet ''qSymbol::'') None
               (t1\<lparr>m_process_symbols := False, m_rtos_avail := rtos_symbols_found (m_symbols t1)\<rparr>), True)
        else Inr (push_internal_response (symbol_query (m_current_symbol t + 1)) t1, True))"
proof -
  have "drop 9 (m_data (symbol_reply r)) = (if fst r = 0 then [] else hex_str (unat (fst r)))
      @ CHR '':'' # snd r @ CHR ''#'' # hex_byte (csum8 (pkt_data (symbol_reply r)))"
    by (simp add: symbol_reply_def wire_def)
  then have "strtoull16 (drop (1 + 8) (m_data (symbol_reply r))) = (fst r, False)"
    by (simp add: strtoull16_reply)
  with assms show ?thesis
    by (simp add: symbol_reply_query handle_symbol_reply_def Let_def store_symbol_def
        request_symbol_eq symbol_query_def)
qed

subsection \<open>The whole exchange\<close>

lemma store_symbol_fields [simp]:
  "m_process_symbols (store_symbol a t) = m_process_symbols t"
  "m_current_symbol (store_symbol a t) = Suc (m_current_symbol t)"
  "m_symbols (store_symbol a t) = (m_symbols t)[m_current_symbol t := a]"
  "m_conn (store_symbol a t) = m_conn t"
  by (simp_all add: store_symbol_def)

lemma push_response_fields [simp]:
  "m_process_symbols (push_internal_response p t) = m_process_symbols t"
  "m_current_symbol (push_internal_response p t) = m_current_symbol t"
  "m_symbols (push_internal_response p t) = m_symbols t"
  "m_rtos_avail (push_internal_response p t) = m_rtos_avail t"
  "m_conn (push_internal_response p t) = m_conn t @ [Internal_Response p]"
  by (simp_all add: push_internal_response_def)

lemma take_update_append:
  "k < length xs \<Longrightarrow> take (Suc k) (xs[k := a]) @ ys = take k xs @ a # ys"
  by (simp add: take_Suc_conv_app_nth)

lemma symbol_replies:
  assumes "m_process_symbols t" and "length (m_symbols t) = Symbol_Count"
    and "m_current_symbol t + length rs = Symbol_Count" and "rs \<noteq> []"
    and "\<forall>r\<in>set rs. name_ok (snd r)"
  shows "\<exists>t'. run_requests (map symbol_reply rs) t = Inr (t', replicate (length rs) True)
    \<and> m_symbols t' = take (m_current_symbol t) (m_symbols t) @ map fst rs
    \<and> m_rtos_avail t' = rtos_symbols_found (m_symbols t') \<and> \<not> m_process_symbols t'
    \<and> m_conn t' = m_conn t
        @ map (\<lambda>i. Internal_Response (symbol_query i)) [Suc (m_current_symbol t)..<Symbol_Count]
        @ [Client_Request (data_packet ''qSymbol::'') None]"
  using assms
proof (induction rs arbitrary: t)
  case Nil
  then show ?case by simp
next
  case (Cons r rs)
  let ?t1 = "store_symbol (fst r) t"
  from Cons.prems have lt: "m_current_symbol t < Symbol_Count" by simp
  note step = symbol_reply_step [OF Cons.prems(1) _ Cons.prems(2) lt, of r, unfolded Let_def]
  show ?case
  proof (cases "rs = []")
    case True
    with Cons.prems have last: "m_current_symbol t + 1 = Symbol_Count" by simp
    moreover have "(m_symbols t)[m_current_symbol t := fst r] = take (m_current_symbol t) (m_symbols t) @ [fst r]"
      using Cons.prems(2) last take_update_append [of "m_current_symbol t" "m_symbols t" "fst r" "[]"]
      by simp
    ultimately show ?thesis
      using step Cons.prems True by (simp add: push_request_def)
  next
    case False
    let ?t2 = "push_internal_response (symbol_query (m_current_symbol t + 1)) ?t1"
    from False Cons.prems(3) have more: "m_current_symbol t + 1 < Symbol_Count"
      by (cases rs) auto
    have IH: "\<exists>t'. run_requests (map symbol_reply rs) ?t2 = Inr (t', replicate (length rs) True)
      \<and> m_symbols t' = take (Suc (m_current_symbol t)) (m_symbols ?t1) @ map fst rs
      \<and> m_rtos_avail t' = rtos_symbols_found (m_symbols t') \<and> \<not> m_process_symbols t'
      \<and> m_conn t' = m_conn ?t2
        @ map (\<lambda>i. Internal_Response (symbol_query i)) [Suc (Suc (m_current_symbol t))..<Symbol_Count]
        @ [Client_Request (data_packet ''qSymbol::'') None]"
      using Cons.IH [of ?t2] Cons.prems False by simp
    have "run_requests (map symbol_reply (r # rs)) t =
        bind_res (run_requests (map symbol_reply rs) ?t2) (\<lambda>(t'', hs). Inr (t'', True # hs))"
      using step Cons.prems more by simp
    moreover have "[Suc (m_current_symbol t)..<Symbol_Count]
        = Suc (m_current_symbol t) # [Suc (Suc (m_current_symbol t))..<Symbol_Count]"
      using more by (simp add: upt_conv_Cons)
    ultimately show ?thesis
      using IH lt Cons.prems(2) by (auto simp: take_update_append)
  qed
qed

lemma rtos_symbols_found_iff:
  assumes "length syms = Symbol_Count"
  shows "rtos_symbols_found syms \<longleftrightarrow>
    (\<forall>i<Symbol_Count. snd (s_symbols_desc ! i) = Required \<longrightarrow> syms ! i \<noteq> 0)"
  using assms length_symbols_desc
  by (auto simp: rtos_symbols_found_def list_all_length)

lemma symbol_first:
  "process_request (data_packet ''qSymbol::'') t = Inr (push_internal_response (symbol_query 0)
     (t\<lparr>m_process_symbols := True, m_current_symbol := 0, m_rtos_avail := False,
        m_symbols := replicate (length (m_symbols t)) 0\<rparr>), True)"
proof -
  have "process_request (data_packet ''qSymbol::'') t = handle_query_packet (data_packet ''qSymbol::'') t"
    by (rule process_query) simp_all
  then show ?thesis
    by (simp add: handle_query_packet_eq handle_symbol_init_def request_symbol_eq symbol_query_def
        Symbol_Count_def)
qed

text \<open>C5: A client that starts the symbol lookup and answers each of the target's requests, with
  the address or with an empty value, is asked for the thirteen symbols of the table in their
  order; afterwards the target holds exactly the thirteen answers, RTOS support is on if and only
  if every required symbol was found, and the lookup is passed on to the remote. All fourteen
  packets are handled, so none of them is forwarded. The name in a reply is never looked at.\<close>

theorem symbol_handshake:
  assumes "length addrs = Symbol_Count" and "length names = Symbol_Count"
    and "\<forall>nm\<in>set names. name_ok nm" and "length (m_symbols t) = Symbol_Count"
  shows "\<exists>t'. run_requests (data_packet ''qSymbol::'' # map symbol_reply (zip addrs names)) t
      = Inr (t', replicate 14 True)
    \<and> m_symbols t' = addrs
    \<and> (m_rtos_avail t' \<longleftrightarrow>
        (\<forall>i<Symbol_Count. snd (s_symbols_desc ! i) = Required \<longrightarrow> addrs ! i \<noteq> 0))
    \<and> \<not> m_process_symbols t'
    \<and> m_conn t' = m_conn t @ map (\<lambda>i. Internal_Response (symbol_query i)) [0..<Symbol_Count]
        @ [Client_Request (data_packet ''qSymbol::'') None]"
proof -
  let ?t0 = "t\<lparr>m_process_symbols := True, m_current_symbol := 0, m_rtos_avail := False,
          m_symbols := replicate (length (m_symbols t)) 0\<rparr>"
  let ?t1 = "push_internal_response (symbol_query 0) ?t0"
  have first: "process_request (data_packet ''qSymbol::'') t = Inr (?t1, True)" by (rule symbol_first)
  let ?rs = "zip addrs names"
  from assms(1,2) have l: "length ?rs = Symbol_Count" by simp
  then have "?rs \<noteq> []" by (auto simp: Symbol_Count_def)
  moreover have "\<forall>r\<in>set ?rs. name_ok (snd r)" using assms(3) by (auto dest: set_zip_rightD)
  ultimately obtain t' where t': "run_requests (map symbol_reply ?rs) ?t1 = Inr (t', replicate 13 True)"
      "m_symbols t' = addrs" "m_rtos_avail t' = rtos_symbols_found (m_symbols t')"
      "\<not> m_process_symbols t'"
      "m_conn t' = m_conn ?t1 @ map (\<lambda>i. Internal_Response (symbol_query i)) [1..<Symbol_Count]
        @ [Client_Request (data_packet ''qSymbol::'') None]"
    using symbol_replies [of ?t1 ?rs] l assms(1,2,4) by (auto simp: Symbol_Count_def)
  have "[0..<Symbol_Count] = 0 # [1..<Symbol_Count]" by (simp add: upt_conv_Cons Symbol_Count_def)
  moreover have "replicate 14 True = True # replicate 13 True" by (simp add: numeral_eq_Suc)
  ultimately show ?thesis
    using first t' rtos_symbols_found_iff [of addrs] assms(1) by simp
qed

theorem symbol_handshake_witness:
  "\<exists>t'. run_requests (data_packet ''qSymbol::''
        # map symbol_reply (zip (0 # replicate 12 0x2000) (replicate 13 ''78''))) (mb_new (replicate 13 0))
      = Inr (t', replicate 14 True) \<and> m_rtos_avail t' \<and> m_symbols t' = 0 # replicate 12 0x2000"
proof -
  have "(0 # replicate 12 (0x2000 :: u64)) ! i \<noteq> 0"
    if "i < Symbol_Count" and "snd (s_symbols_desc ! i) = Required" for i
    using that by (cases i) (simp_all add: s_symbols_desc_def Symbol_Count_def)
  then show ?thesis
    using symbol_handshake [of "0 # replicate 12 0x2000" "replicate 13 ''78''" "mb_new (replicate 13 0)"]
    by (auto simp: mb_new_fields Symbol_Count_def)
qed

end
