(* ===== verification/Mb_System.thy ===== *)
theory Mb_System
  imports Closed_System Mb_Stop_Reply Mb_Register_List Mb_Symbols
begin

section \<open>The FreeRTOS target between its peers\<close>

text \<open>
  What the client gets, from the bytes it sends to the bytes it receives, when the remote serves a
  memory: the behaviour of the connection, the target and the packets put together. \<open>orderly\<close> are the
  schedules of reads, completion handlers and receptions in which no bytes of the remote are read
  while the completion handler of a write to the remote is still to run, and no read fills the
  buffer; neither connection breaks.
\<close>

subsection \<open>The target's dialogues\<close>

lemma no_conn [simp]: "m_conn t = [] \<Longrightarrow> t\<lparr>m_conn := []\<rparr> = t"
  by (cases t) simp

text \<open>\<open>serve\<close> hands the target one reply after the other; so does a dialogue.\<close>

lemma serve_dialogue:
  assumes "serve n (\<lambda>p. data_packet (f (pkt_data p))) t = Inr t'" and "m_conn t' = [Internal_Response q]"
    and "\<forall>x. plain (f x)"
  shows "\<exists>call. m_conn t = [call] \<and> dialogue acks mb_on_reply f (t\<lparr>m_conn := []\<rparr>) call (t'\<lparr>m_conn := []\<rparr>) [] q"
  using assms(1)
proof (induction n arbitrary: t)
  case 0
  then show ?case using assms(2) by (simp add: dlg_end)
next
  case (Suc n)
  show ?case
  proof (cases "\<exists>p cb. m_conn t = [Internal_Request p (Some cb)]")
    case True
    then obtain p cb where c: "m_conn t = [Internal_Request p (Some cb)]" by blast
    with Suc.prems obtain t1
      where r: "run_callback cb p (data_packet (f (pkt_data p))) (t\<lparr>m_conn := []\<rparr>) = Inr t1"
        and s: "serve n (\<lambda>p. data_packet (f (pkt_data p))) t1 = Inr t'"
      by (auto simp: res_iff)
    from Suc.IH [OF s] obtain call
      where call: "m_conn t1 = [call]" "dialogue acks mb_on_reply f (t1\<lparr>m_conn := []\<rparr>) call (t'\<lparr>m_conn := []\<rparr>) [] q"
      by blast
    from r call(1) have "mb_on_reply cb p (data_packet (f (pkt_data p))) (t\<lparr>m_conn := []\<rparr>)
        = Inr (t1\<lparr>m_conn := []\<rparr>, [call])"
      by (simp add: mb_on_reply_def)
    from dlg_internal [where rp = mb_on_reply, OF this _ call(2)] assms(3) c show ?thesis by simp
  next
    case False
    then have "t' = t" using Suc.prems by (auto split: list.splits conn_call.splits option.splits)
    then show ?thesis using assms(2) by (simp add: dlg_end)
  qed
qed

text \<open>A packet the target takes, from the client's bytes to its answer.\<close>

lemma answered_inevitable:
  assumes "settled t out (wire p) s" and "mb_inv t" and "plain p"
    and "mb_process_request t (data_packet p) = Inr (t1, [call], True)"
    and "dialogue acks mb_on_reply f t1 call t' pre q" and "acks_only g"
  shows "inevitable (orderly mb_process_request mb_on_reply acks f g)
    (settled t' (out @ pre @ [raw_data q]) []) s"
proof -
  have "handled_as mb_process_request t p t1 call" using assms(4) by (simp add: handled_as_def)
  moreover have "g (pkt_data q) \<in> {[], ''+''}" using assms(6) by (simp add: acks_only_def)
  ultimately have c: "conversation mb_process_request mb_on_reply acks f g t p t' (pre @ [raw_data q])"
    using assms(5) by (intro conv_last)
  have "stage t [] out [] [] [] ((if False then ''+'' else []) @ wire p) [] [] s"
    using settled_stage [OF assms(1)] by simp
  from conversation_inevitable [OF c mb_target.target_contract_axioms assms(2,3) this] show ?thesis .
qed

subsection \<open>Resuming the system\<close>

text \<open>The packets after which the remote sends a stop reply.\<close>

definition resumes :: "string \<Rightarrow> bool" where
  "resumes p =
     (case p of [] \<Rightarrow> False
      | c # _ \<Rightarrow> c \<in> set ''CcSs?'' \<or> c = CHR ''v'' \<and> v_packet_resumes p = Inr True)"

lemma resume_request:
  "resumes p \<Longrightarrow>
     process_request (data_packet p) t = Inr (push_internal_request (data_packet p) Cb_stop_reply t, True)"
  by (cases p) (auto simp: resumes_def process_request_def sv_index_def handle_stop_reply_packets_def)

lemma resume_dialogue:
  assumes "bind_res (run_callback Cb_stop_reply (data_packet p) (data_packet (f p)) t)
      (serve n (\<lambda>p. data_packet (f (pkt_data p)))) = Inr t'"
    and "m_conn t' = [Internal_Response q]" and "\<forall>x. plain (f x)" and "m_conn t = []"
  shows "dialogue acks mb_on_reply f t (Internal_Request (data_packet p) (Some Cb_stop_reply))
    (t'\<lparr>m_conn := []\<rparr>) [] q"
proof -
  from assms(1) obtain t1 where r: "run_callback Cb_stop_reply (data_packet p) (data_packet (f p)) t = Inr t1"
    and s: "serve n (\<lambda>p. data_packet (f (pkt_data p))) t1 = Inr t'"
    by (auto simp: res_iff)
  from serve_dialogue [OF s assms(2,3)] obtain call
    where call: "m_conn t1 = [call]" "dialogue acks mb_on_reply f (t1\<lparr>m_conn := []\<rparr>) call (t'\<lparr>m_conn := []\<rparr>) [] q"
    by blast
  have "mb_on_reply Cb_stop_reply (data_packet p) (data_packet (f (pkt_data (data_packet p)))) t
      = Inr (t1\<lparr>m_conn := []\<rparr>, [call])"
    using r call(1) assms(4) by (simp add: mb_on_reply_def)
  from dlg_internal [where rp = mb_on_reply, OF this _ call(2)] assms(3) show ?thesis by simp
qed

text \<open>C3: From the client's resume packet to its stop reply, with RTOS support on, a remote that serves a
  memory and answers the packet with a \<open>T\<close> reply (no run-length coding), and a client that may
  acknowledge what it gets. On every orderly schedule and for every cut of the streams the proxy
  comes to rest after finitely many steps, without a failure, and has sent the client exactly one
  packet, the stop reply with the selected thread in its \<open>thread:\<close> fields; the target then knows the
  tasks of the memory. (Orderly: the completion handler of a write to the remote runs before bytes
  of the remote are read; the other order is \<open>early_reply_dangles\<close>.)\<close>

theorem stop_reply_delivered:
  assumes "settled t out (wire p) s" and "mb_inv t" and "m_conn t = []" and "symbols32 t"
    and "m_rtos_avail t" and "plain p" and "resumes p"
    and "answers_reads mem (\<lambda>p. data_packet (f (pkt_data p)))" and "\<forall>x. plain (f x)"
    and "f p = CHR ''T'' # a # b # put_fields fs @ rest" and "\<forall>x\<in>set fs. CHR '';'' \<notin> set x"
    and "CHR '';'' \<notin> set rest" and "update_result mem t = (cid, tasks, m)" and "acks_only g"
  shows "inevitable (orderly mb_process_request mb_on_reply acks f g)
    (\<lambda>s'. \<exists>t'. settled t' (out @ [wire (CHR ''T'' # a # b #
            put_fields (map (rewrite_field (tid_to_string (m_current_thread_id t))) fs))]) [] s'
        \<and> t_info (m_threading t') = execution_info t # tasks
        \<and> current_thread_id (m_threading t') = cid) s"
proof -
  let ?rep = "CHR ''T'' # a # b # put_fields fs @ rest"
  let ?q = "data_packet (CHR ''T'' # a # b #
    put_fields (map (rewrite_field (tid_to_string (m_current_thread_id t))) fs))"
  have "plain ?rep" using assms(9,10) by metis
  then have pl: "plain [a, b]" "\<forall>x\<in>set fs. field_ok x" "field_ok rest"
    using assms(11,12) by (auto simp: plain_put_fields)
  obtain t' k where u: "\<And>n. n \<ge> k \<Longrightarrow> bind_res (run_callback Cb_stop_reply (data_packet p) (data_packet ?rep) t)
        (serve n (\<lambda>p. data_packet (f (pkt_data p)))) = Inr t'"
    and t': "t_info (m_threading t') = execution_info t # tasks" "current_thread_id (m_threading t') = cid"
      "m_conn t' = [Internal_Response ?q]"
    using thread_update_aux [OF assms(8,3,4,5) pl assms(13), of "data_packet p"] by blast
  have d: "dialogue acks mb_on_reply f t (Internal_Request (data_packet p) (Some Cb_stop_reply))
      (t'\<lparr>m_conn := []\<rparr>) [] ?q"
    by (rule resume_dialogue [where n = k, OF _ t'(3) assms(9,3)]) (simp add: assms(10) u [OF order_refl])
  have r: "mb_process_request t (data_packet p)
      = Inr (t, [Internal_Request (data_packet p) (Some Cb_stop_reply)], True)"
    using resume_request [OF assms(7)] assms(3)
    by (simp add: mb_process_request_def push_internal_request_def)
  show ?thesis
    by (rule inevitable_mono [OF answered_inevitable [OF assms(1,2,6) r d assms(14)]])
      (intro exI [of _ "t'\<lparr>m_conn := []\<rparr>"], use t' in simp)
qed

text \<open>A connection that has just been armed, and a remote that serves an empty memory and stops at once.\<close>

definition armed_system :: "mb \<Rightarrow> string \<Rightarrow> (mb, mb_cb) sys" where
  "armed_system t x =
     \<lparr>sys_conn = start_read Responses (start_read Requests (connection_new t)), from_client = x,
      from_remote = [], seen_by_remote = 0, seen_by_client = 0\<rparr>"

lemma armed_settled: "settled t [] x (armed_system t x)"
  by (simp add: armed_system_def settled_def quiet_def seen_def all_directions channel_new_def start_read_def)

definition stopping_remote :: "memory \<Rightarrow> string \<Rightarrow> string" where
  "stopping_remote mem x =
     (if x = ''?'' then ''T05thread:1;'' else pkt_data (memory_server mem (data_packet x)))"

lemma memory_server_payload: "data_packet (pkt_data (memory_server mem p)) = memory_server mem p"
  by (simp add: memory_server_def Let_def)

lemma stopping_remote_answers:
  "answers_reads mem (\<lambda>p. data_packet (stopping_remote mem (pkt_data p)))"
proof -
  have "read_req_text a n \<noteq> ''?''" for a n by (simp add: read_req_text_def)
  then show ?thesis
    using memory_server_answers [of mem]
    by (simp add: answers_reads_def stopping_remote_def memory_server_payload)
qed

lemma stopping_remote_plain: "\<forall>x. plain (stopping_remote mem x)"
  by (simp add: stopping_remote_def memory_server_def Let_def)

abbreviation example_target :: mb where
  "example_target \<equiv> (mb_new (replicate 13 0x2000))\<lparr>m_rtos_avail := True\<rparr>"

lemma example_target_ok: "mb_inv example_target" "symbols32 example_target" "m_conn example_target = []"
proof -
  have "symbol_addr example_target s = 0x2000" for s
    using symbol_index_bound [of s] by (simp add: symbol_addr_def mb_new_fields Symbol_Count_def)
  then show "symbols32 example_target" by (simp add: symbols32_def)
  have "mb_inv (mb_new (replicate 13 0x2000))" by (rule mb_new_inv) (simp add: Symbol_Count_def)
  moreover have "rtos_symbols_found (replicate 13 0x2000)" by code_simp
  moreover have "m_stop_reply_response example_target = m_stop_reply_response (mb_new (replicate 13 0x2000))"
    by simp
  ultimately show "mb_inv example_target" unfolding mb_inv_def by (simp add: mb_new_fields Symbol_Count_def)
qed (simp add: mb_new_fields)

theorem stop_reply_delivered_witness:
  "inevitable (orderly mb_process_request mb_on_reply True (stopping_remote (\<lambda>_. 0)) (\<lambda>_. ''+''))
     (\<lambda>s'. \<exists>t'. settled t' [wire (''T05thread:'' @ tid_to_string (m_current_thread_id example_target) @ '';'')] [] s'
        \<and> length (t_info (m_threading t')) = 1)
     (armed_system example_target (wire ''?''))"
proof -
  let ?t = example_target and ?m = "\<lambda>_ :: u64. 0 :: byte"
  have z: "mem_word ?m a = 0" for a by (simp add: mem_word_def mem_bytes_def upt_rec)
  have "update_result ?m ?t = (threadid_default, [], [])"
    by (simp add: update_result_def z mb_new_fields)
  then have "inevitable (orderly mb_process_request mb_on_reply True (stopping_remote ?m) (\<lambda>_. ''+''))
    (\<lambda>s'. \<exists>t'. settled t' ([] @ [wire (CHR ''T'' # CHR ''0'' # CHR ''5'' #
            put_fields (map (rewrite_field (tid_to_string (m_current_thread_id ?t))) [''thread:1'']))]) [] s'
        \<and> t_info (m_threading t') = execution_info ?t # [] \<and> current_thread_id (m_threading t') = threadid_default)
    (armed_system ?t (wire ''?''))"
    using example_target_ok armed_settled [of ?t "wire ''?''"] stopping_remote_answers [of ?m] stopping_remote_plain [of ?m]
    by (intro stop_reply_delivered [where p = "''?''" and rest = "[]" and mem = ?m])
      (simp_all add: resumes_def stopping_remote_def acks_only_def)
  then show ?thesis by (rule inevitable_mono) (auto simp: rewrite_field_def)
qed

subsection \<open>The registers of a thread\<close>

lemma answers_payload:
  assumes "answers_reads mem (\<lambda>p. data_packet (f (pkt_data p)))"
  shows "f (read_req_text a n) = bin2hex (mem_bytes mem a (unat n)) []"
proof -
  have "data_packet (f (read_req_text a n)) = data_packet (bin2hex (mem_bytes mem a (unat n)) [])"
    using assms by (simp add: answers_reads_def)
  then show ?thesis by (metis data_packet_data)
qed

lemma registers_dialogue:
  assumes "m_rtos_avail t" and "\<not> tid_eq (m_current_thread_id t) (current_thread_id (m_threading t))"
    and "m_threadid (m_current_thread_id t) = n" and "1 < n" and "unat n < 2 ^ 32" and "m_conn t = []"
    and "answers_reads mem (\<lambda>p. data_packet (f (pkt_data p)))" and "\<forall>x. plain (f x)"
    and "sp = mem_word mem n"
  shows "\<exists>t1 call t'. mb_process_request t (data_packet (''g'' @ s)) = Inr (t1, [call], True)
    \<and> dialogue acks mb_on_reply f t1 call t' [] (data_packet (register_list (mem_bytes mem sp 132) (sp + 132)))"
proof -
  let ?p1 = "data_packet (read_req_text n 4)" and ?p2 = "data_packet (read_req_text sp 132)"
  let ?q = "data_packet (register_list (mem_bytes mem sp 132) (sp + 132))"
  let ?t1 = "t\<lparr>m_registers := registers_default\<lparr>r_stacking := Some microblaze_non_fpu_stacking\<rparr>, m_conn := []\<rparr>"
  let ?t2 = "?t1\<lparr>m_registers := (m_registers ?t1)\<lparr>stack_ptr := sp\<rparr>, m_conn := []\<rparr>"
  have st: "r_stacking (m_registers ?t1) = Some microblaze_non_fpu_stacking"
    "r_stacking (m_registers ?t2) = Some microblaze_non_fpu_stacking" by (simp_all add: registers_default_def)
  have sp: "unat sp < 2 ^ 32" using mem_word_bound [of mem n] by (simp add: assms(9))
  have f: "f (pkt_data ?p1) = bin2hex (mem_bytes mem n 4) []" "f (pkt_data ?p2) = bin2hex (mem_bytes mem sp 132) []"
    by (simp_all add: answers_payload [OF assms(7)])
  have 1: "mb_process_request t (data_packet (''g'' @ s)) = Inr (?t1, [Internal_Request ?p1 (Some Cb_stack_ptr)], True)"
    using registers_request [OF assms(1-5), of s] assms(6)
    by (simp add: mb_process_request_def push_internal_request_def)
  have 2: "mb_on_reply Cb_stack_ptr ?p1 (data_packet (f (pkt_data ?p1))) ?t1
      = Inr (?t2, [Internal_Request ?p2 (Some (Cb_registers sp))])"
    unfolding f using stack_ptr_reply [OF st(1) _ sp] assms(9)
    by (simp add: mb_on_reply_def push_internal_request_def)
  have 3: "mb_on_reply (Cb_registers sp) ?p2 (data_packet (f (pkt_data ?p2))) ?t2 = Inr (?t2, [Internal_Response ?q])"
    unfolding f using registers_reply [OF st(2)]
    by (simp add: mb_on_reply_def push_internal_response_def mem_bytes_def [of mem _ 132])
  have "dialogue acks mb_on_reply f ?t2 (Internal_Request ?p2 (Some (Cb_registers sp))) ?t2 [] ?q"
    by (rule dlg_internal [where rp = mb_on_reply and f = f and p = ?p2, OF 3 spec [OF assms(8)] dlg_end])
  then have "dialogue acks mb_on_reply f ?t1 (Internal_Request ?p1 (Some Cb_stack_ptr)) ?t2 [] ?q"
    by (rule dlg_internal [where rp = mb_on_reply and f = f and p = ?p1, OF 2 spec [OF assms(8)]])
  with 1 show ?thesis by blast
qed

text \<open>C12: From the client's register request for a thread that is not running to the register list, with a
  remote that serves a memory and a client that may acknowledge: on every orderly schedule (the
  completion handler of a write to the remote runs before bytes of the remote are read; the other
  order is \<open>early_reply_dangles\<close>) and for every cut of the streams the proxy comes to rest after
  finitely many steps, without a failure, and has sent the client exactly one packet, the 59
  registers taken from the 132 bytes at the address that is stored at the \<^emph>\<open>number\<close> of the thread.\<close>

theorem registers_delivered:
  assumes "settled t out (wire (''g'' @ x)) s" and "mb_inv t" and "m_conn t = []" and "m_rtos_avail t"
    and "\<not> tid_eq (m_current_thread_id t) (current_thread_id (m_threading t))"
    and "m_threadid (m_current_thread_id t) = n" and "1 < n" and "unat n < 2 ^ 32" and "plain x"
    and "answers_reads mem (\<lambda>p. data_packet (f (pkt_data p)))" and "\<forall>x. plain (f x)" and "acks_only g"
  shows "inevitable (orderly mb_process_request mb_on_reply acks f g)
    (\<lambda>s'. \<exists>t'. settled t' (out @ [wire (register_list (mem_bytes mem (mem_word mem n) 132)
        (mem_word mem n + 132))]) [] s') s"
proof -
  let ?q = "data_packet (register_list (mem_bytes mem (mem_word mem n) 132) (mem_word mem n + 132))"
  obtain t1 call t' where r: "mb_process_request t (data_packet (''g'' @ x)) = Inr (t1, [call], True)"
    and d: "dialogue acks mb_on_reply f t1 call t' [] ?q"
    using registers_dialogue [OF assms(4-8,3,10,11) refl, of x] by blast
  have "plain (''g'' @ x)" using assms(9) by simp
  from answered_inevitable [OF assms(1,2) this r d assms(12)]
  have "inevitable (orderly mb_process_request mb_on_reply acks f g) (settled t' (out @ [] @ [raw_data ?q]) []) s" .
  then show ?thesis by (rule inevitable_mono) auto
qed

theorem registers_delivered_witness:
  "inevitable (orderly mb_process_request mb_on_reply False (stopping_remote (\<lambda>_. 0)) (\<lambda>_. []))
     (\<lambda>s'. \<exists>t'. settled t' [wire (register_list (replicate 132 0) 132)] [] s')
     (armed_system (example_target\<lparr>m_current_thread_id := threadid_of_pid_tid 1 3\<rparr>) (wire ''g''))"
proof -
  let ?t = "example_target\<lparr>m_current_thread_id := threadid_of_pid_tid 1 3\<rparr>" and ?m = "\<lambda>_ :: u64. 0 :: byte"
  have z: "mem_word ?m a = 0" for a by (simp add: mem_word_def mem_bytes_def upt_rec)
  have b: "mem_bytes ?m 0 132 = replicate 132 0" by (simp add: mem_bytes_def map_replicate_const)
  have "mb_inv ?t" using example_target_ok(1) by simp
  moreover have "m_threadid (current_thread_id (m_threading ?t)) = 1"
    by (simp add: mb_new_def make_empty_threading_def reset_threading_def add_current_execution_def
        make_threadid_pid_def THREAD_ID_CURRENT_EXECUTION_def Let_def)
  then have "\<not> tid_eq (m_current_thread_id ?t) (current_thread_id (m_threading ?t))"
    by (simp add: tid_eq_def threadid_of_pid_tid_def)
  ultimately have "inevitable (orderly mb_process_request mb_on_reply False (stopping_remote ?m) (\<lambda>_. []))
    (\<lambda>s'. \<exists>t'. settled t' ([] @ [wire (register_list (mem_bytes ?m (mem_word ?m 3) 132) (mem_word ?m 3 + 132))]) [] s')
    (armed_system ?t (wire (''g'' @ [])))"
    using example_target_ok(3) armed_settled [of ?t "wire (''g'' @ [])"] stopping_remote_answers [of ?m] stopping_remote_plain [of ?m]
    by (intro registers_delivered [where t = ?t and n = 3 and x = "[]" and mem = ?m]) (simp_all add: threadid_of_pid_tid_def acks_only_def)
  then show ?thesis by (simp add: z b)
qed

subsection \<open>Everything else\<close>

text \<open>C24: From a packet the target leaves alone to its reply, with any target, a remote that acknowledges
  or one that does not and whose reply is not run-length coded, and a client that may acknowledge:
  on every orderly schedule (the completion handler of a write to the remote runs before bytes of
  the remote are read; the other order is \<open>early_reply_dangles\<close>) and for every cut of the streams the
  proxy comes to rest after finitely many steps, without a failure, and the client has got the
  remote's acknowledgement, if any, and then the remote's reply to the payload it sent, unchanged.\<close>

theorem reply_forwarded:
  assumes "settled t out (wire p) s" and "plain p" and "plain (f p)"
    and "pr t (data_packet p) = Inr (t', [], False)" and "acks_only g"
  shows "inevitable (orderly pr rp acks f g)
    (settled t' (out @ (if acks then [''+''] else []) @ [wire (f p)]) []) s"
  by (rule forward_inevitable [where pr = pr and f = f, OF assms(1-4)]) (use assms(5) in \<open>simp add: acks_only_def\<close>)

theorem reply_forwarded_witness:
  "inevitable (orderly mb_process_request mb_on_reply True rev (\<lambda>_. ''+''))
     (settled (example_target\<lparr>m_conn := []\<rparr>) [''+'', wire ''4,0m''] [])
     (armed_system example_target (wire ''m0,4''))"
proof -
  have "mb_process_request example_target (data_packet ''m0,4'') = Inr (example_target\<lparr>m_conn := []\<rparr>, [], False)"
    by (simp add: mb_process_request_def process_request_def sv_index_def)
  then have "inevitable (orderly mb_process_request mb_on_reply True rev (\<lambda>_. ''+''))
     (settled (example_target\<lparr>m_conn := []\<rparr>) ([] @ (if True then [''+''] else []) @ [wire (rev ''m0,4'')]) [])
     (armed_system example_target (wire ''m0,4''))"
    by (intro reply_forwarded [where t = example_target and p = "''m0,4''", OF armed_settled])
      (simp_all add: acks_only_def)
  then show ?thesis by simp
qed

subsection \<open>The exchange of symbols\<close>

text \<open>A client that knows the addresses of symbols, by the hexadecimal form of their names, and
  acknowledges what it gets if acknowledgements are on.\<close>

definition symbol_client :: "bool \<Rightarrow> (string \<Rightarrow> u64) \<Rightarrow> string \<Rightarrow> string" where
  "symbol_client b addr_of x =
     (if b then ''+'' else []) @ (if take 8 x = ''qSymbol:'' then wire (pkt_data (symbol_reply (addr_of (drop 8 x), drop 8 x))) else [])"

definition symbol_name :: "nat \<Rightarrow> string" where
  "symbol_name i = bin2hex (map ord8 (fst (s_symbols_desc ! i))) []"

definition symbol_answer :: "(string \<Rightarrow> u64) \<Rightarrow> nat \<Rightarrow> string" where
  "symbol_answer addr_of i = pkt_data (symbol_reply (addr_of (symbol_name i), symbol_name i))"

lemma symbol_query_name: "symbol_query i = data_packet (''qSymbol:'' @ symbol_name i)"
  by (simp add: symbol_query_def symbol_name_def)

lemma symbol_client_query:
  "symbol_client b addr_of (pkt_data (symbol_query i)) = (if b then ''+'' else []) @ wire (symbol_answer addr_of i)"
  by (simp add: symbol_client_def symbol_query_name symbol_answer_def)

lemma data_packet_answer:
  "data_packet (symbol_answer addr_of i) = symbol_reply (addr_of (symbol_name i), symbol_name i)"
  by (simp add: symbol_answer_def symbol_reply_def)

lemma symbol_name_ok:
  assumes "i < Symbol_Count"
  shows "name_ok (symbol_name i)"
proof -
  have "\<forall>e\<in>set s_symbols_desc. fst e \<noteq> []" by (simp add: s_symbols_desc_def)
  moreover have "i < length s_symbols_desc" using assms by (simp add: s_symbols_desc_def Symbol_Count_def)
  ultimately have "fst (s_symbols_desc ! i) \<noteq> []" using nth_mem by blast
  then have "symbol_name i \<noteq> []"
    by (cases "fst (s_symbols_desc ! i)") (simp_all add: symbol_name_def bin2hex_eq hex_pair_def)
  then show ?thesis by (simp add: symbol_name_def)
qed

lemma plain_symbol_answer: "i < Symbol_Count \<Longrightarrow> plain (symbol_answer addr_of i)"
  using symbol_name_ok [of i] by (simp add: symbol_answer_def symbol_reply_def)

lemma mb_process_packet:
  "process_request (data_packet p) t = Inr (t1, h) \<Longrightarrow> m_conn t = [] \<Longrightarrow>
     mb_process_request t (data_packet p) = Inr (t1\<lparr>m_conn := []\<rparr>, m_conn t1, h)"
  by (simp add: mb_process_request_def)

lemma symbol_conversation:
  assumes "f ''qSymbol::'' = ''OK''"
  shows "\<lbrakk>m_process_symbols t; length (m_symbols t) = Symbol_Count; m_current_symbol t = i; i < Symbol_Count;
      take i (m_symbols t) = map (addr_of \<circ> symbol_name) [0..<i]; m_conn t = []\<rbrakk> \<Longrightarrow>
    \<exists>t'. conversation mb_process_request mb_on_reply acks f (symbol_client b addr_of) t (symbol_answer addr_of i) t'
        (map (\<lambda>j. raw_data (symbol_query j)) [Suc i..<Symbol_Count] @ (if acks then [''+''] else []) @ [wire ''OK''])
      \<and> m_symbols t' = map (addr_of \<circ> symbol_name) [0..<Symbol_Count]
      \<and> m_rtos_avail t' = rtos_symbols_found (m_symbols t')"
proof (induction "Symbol_Count - i" arbitrary: i t)
  case (Suc k)
  let ?r = "(addr_of (symbol_name i), symbol_name i)"
  let ?t1 = "store_symbol (fst ?r) t"
  have step: "process_request (data_packet (symbol_answer addr_of i)) t =
    (if Suc i = Symbol_Count
     then Inr (push_request (data_packet ''qSymbol::'') None
            (?t1\<lparr>m_process_symbols := False, m_rtos_avail := rtos_symbols_found (m_symbols ?t1)\<rparr>), True)
     else Inr (push_internal_response (symbol_query (Suc i)) ?t1, True))"
    using symbol_reply_step [of t ?r] Suc.prems symbol_name_ok [of i] by (simp add: data_packet_answer Let_def)
  have stored: "take (Suc i) (m_symbols ?t1) = map (addr_of \<circ> symbol_name) [0..<Suc i]"
    using Suc.prems by (simp add: take_Suc_conv_app_nth)
  show ?case
  proof (cases "Suc i = Symbol_Count")
    case True
    let ?t2 = "?t1\<lparr>m_process_symbols := False, m_rtos_avail := rtos_symbols_found (m_symbols ?t1)\<rparr>"
    let ?t' = "?t2\<lparr>m_conn := []\<rparr>"
    have r: "mb_process_request t (data_packet (symbol_answer addr_of i))
        = Inr (?t', [Client_Request (data_packet ''qSymbol::'') None], True)"
      using mb_process_packet [of "symbol_answer addr_of i" t] step True Suc.prems
      by (simp add: push_request_def)
    have d: "dialogue acks mb_on_reply f ?t' (Client_Request (data_packet ''qSymbol::'') None) ?t'
        (if acks then [''+''] else []) (data_packet ''OK'')"
      using dlg_passed [of f "data_packet ''qSymbol::''" acks mb_on_reply ?t'] assms by simp
    have e: "symbol_client b addr_of (pkt_data (data_packet ''OK'')) \<in> {[], ''+''}"
      by (simp add: symbol_client_def)
    have h: "handled_as mb_process_request t (symbol_answer addr_of i) ?t' (Client_Request (data_packet ''qSymbol::'') None)"
      using r by (simp add: handled_as_def)
    have m: "m_symbols ?t' = map (addr_of \<circ> symbol_name) [0..<Symbol_Count]"
      using stored True Suc.prems(2) by simp
    have u: "[Suc i..<Symbol_Count] = []" using True by simp
    from conv_last [where pr = mb_process_request, OF h d, of "symbol_client b addr_of", OF e] m show ?thesis
      unfolding u by (intro exI [of _ ?t']) simp
  next
    case False
    let ?t' = "?t1\<lparr>m_conn := []\<rparr>"
    have i: "Suc i < Symbol_Count" using False Suc.prems(4) by simp
    have r: "mb_process_request t (data_packet (symbol_answer addr_of i))
        = Inr (?t', [Internal_Response (symbol_query (Suc i))], True)"
      using mb_process_packet [of "symbol_answer addr_of i" t] step False Suc.prems
      by (simp add: push_internal_response_def)
    have "k = Symbol_Count - Suc i" using Suc.hyps(2) by simp
    from Suc.hyps(1) [OF this, of ?t'] i stored Suc.prems obtain t'
      where c: "conversation mb_process_request mb_on_reply acks f (symbol_client b addr_of) ?t'
          (symbol_answer addr_of (Suc i)) t'
          (map (\<lambda>j. raw_data (symbol_query j)) [Suc (Suc i)..<Symbol_Count] @ (if acks then [''+''] else []) @ [wire ''OK''])"
        "m_symbols t' = map (addr_of \<circ> symbol_name) [0..<Symbol_Count]"
        "m_rtos_avail t' = rtos_symbols_found (m_symbols t')" by auto
    have u: "[Suc i..<Symbol_Count] = Suc i # [Suc (Suc i)..<Symbol_Count]" using i by (simp add: upt_conv_Cons)
    have h: "handled_as mb_process_request t (symbol_answer addr_of i) ?t' (Internal_Response (symbol_query (Suc i)))"
      using r by (simp add: handled_as_def)
    from conv_more [where pr = mb_process_request, OF h dlg_end symbol_client_query plain_symbol_answer [OF i] c(1)] c(2,3)
    show ?thesis unfolding u by auto
  qed
qed simp

text \<open>C4: From the client's \<open>qSymbol::\<close> to the end of the lookup, with a client that answers every symbol
  request, and acknowledgements on or off on either side: on every orderly schedule (the completion
  handler of a write to the remote runs before bytes of the remote are read; the other order is
  \<open>early_reply_dangles\<close>) and for every cut of the streams the proxy comes to rest after finitely many
  steps, without a failure; the client has got the thirteen requests in the order of the table, then
  the remote's acknowledgement of the last packet, if any, and its reply, the target holds the client's
  addresses, and RTOS support is on exactly if every required symbol has one.\<close>

theorem symbols_delivered:
  assumes "settled t out (wire ''qSymbol::'') s" and "mb_inv t" and "m_conn t = []"
    and "f ''qSymbol::'' = ''OK''"
  shows "inevitable (orderly mb_process_request mb_on_reply acks f (symbol_client b addr_of))
    (\<lambda>s'. \<exists>t'. settled t' (out @ map (\<lambda>i. wire (''qSymbol:'' @ symbol_name i)) [0..<Symbol_Count]
          @ (if acks then [''+''] else []) @ [wire ''OK'']) [] s'
        \<and> m_symbols t' = map (\<lambda>i. addr_of (symbol_name i)) [0..<Symbol_Count]
        \<and> (m_rtos_avail t' \<longleftrightarrow>
            (\<forall>i<Symbol_Count. snd (s_symbols_desc ! i) = Required \<longrightarrow> addr_of (symbol_name i) \<noteq> 0))) s"
proof -
  let ?t0 = "t\<lparr>m_process_symbols := True, m_current_symbol := 0, m_rtos_avail := False,
        m_symbols := replicate (length (m_symbols t)) 0\<rparr>"
  let ?t1 = "?t0\<lparr>m_conn := []\<rparr>" and ?g = "symbol_client b addr_of"
  let ?last = "(if acks then [''+''] else []) @ [wire ''OK'']"
  have l: "length (m_symbols t) = Symbol_Count" using assms(2) by (simp add: mb_inv_def)
  have r: "mb_process_request t (data_packet ''qSymbol::'') = Inr (?t1, [Internal_Response (symbol_query 0)], True)"
    using mb_process_packet [OF symbol_first assms(3)] assms(3) by (simp add: push_internal_response_def)
  have h: "handled_as mb_process_request t ''qSymbol::'' ?t1 (Internal_Response (symbol_query 0))"
    using r by (simp add: handled_as_def)
  have z: "0 < Symbol_Count" by (simp add: Symbol_Count_def)
  obtain t' where c: "conversation mb_process_request mb_on_reply acks f ?g ?t1 (symbol_answer addr_of 0) t'
      (map (\<lambda>j. raw_data (symbol_query j)) [Suc 0..<Symbol_Count] @ ?last)"
    and m: "m_symbols t' = map (addr_of \<circ> symbol_name) [0..<Symbol_Count]"
      "m_rtos_avail t' = rtos_symbols_found (m_symbols t')"
    using symbol_conversation [where f = f and t = ?t1 and i = 0 and addr_of = addr_of and acks = acks and b = b,
        OF assms(4)] l z by auto
  let ?outs = "[] @ [raw_data (symbol_query 0)]
    @ map (\<lambda>j. raw_data (symbol_query j)) [Suc 0..<Symbol_Count] @ ?last"
  have q: "conversation mb_process_request mb_on_reply acks f ?g t ''qSymbol::'' t' ?outs"
    by (rule conv_more [where pr = mb_process_request, OF h dlg_end symbol_client_query plain_symbol_answer [OF z] c])
  have st: "stage t [] out [] [] [] ((if False then ''+'' else []) @ wire ''qSymbol::'') [] [] s"
    using settled_stage [OF assms(1)] by simp
  have i: "inevitable (orderly mb_process_request mb_on_reply acks f ?g) (settled t' (out @ ?outs) []) s"
    by (rule conversation_inevitable [OF q mb_target.target_contract_axioms assms(2) _ st]) simp
  have o: "?outs = map (\<lambda>i. wire (''qSymbol:'' @ symbol_name i)) [0..<Symbol_Count] @ ?last"
    using upt_conv_Cons [OF z] by (simp add: symbol_query_name)
  have a: "m_rtos_avail t' \<longleftrightarrow>
      (\<forall>i<Symbol_Count. snd (s_symbols_desc ! i) = Required \<longrightarrow> addr_of (symbol_name i) \<noteq> 0)"
    using m rtos_symbols_found_iff [of "m_symbols t'"] by simp
  show ?thesis
    by (rule inevitable_mono [OF i [unfolded o]], intro exI [of _ t'] conjI, assumption)
      (use m(1) a in \<open>simp_all add: comp_def\<close>)
qed

theorem symbols_delivered_witness:
  "inevitable (orderly mb_process_request mb_on_reply True (\<lambda>_. ''OK'') (symbol_client True (\<lambda>_. 0x2000)))
    (\<lambda>s'. \<exists>t' out. settled t' (out @ [''+'', wire ''OK'']) [] s' \<and> length out = 13
        \<and> m_symbols t' = replicate 13 0x2000 \<and> m_rtos_avail t')
    (armed_system example_target (wire ''qSymbol::''))"
proof -
  have c: "map (\<lambda>i. 0x2000 :: u64) [0..<Symbol_Count] = replicate 13 0x2000"
    by (simp add: map_replicate_const Symbol_Count_def)
  have "inevitable (orderly mb_process_request mb_on_reply True (\<lambda>_. ''OK'') (symbol_client True (\<lambda>_. 0x2000)))
    (\<lambda>s'. \<exists>t'. settled t' ([] @ map (\<lambda>i. wire (''qSymbol:'' @ symbol_name i)) [0..<Symbol_Count]
          @ (if True then [''+''] else []) @ [wire ''OK'']) [] s'
        \<and> m_symbols t' = map (\<lambda>i. 0x2000) [0..<Symbol_Count]
        \<and> (m_rtos_avail t' \<longleftrightarrow>
            (\<forall>i<Symbol_Count. snd (s_symbols_desc ! i) = Required \<longrightarrow> (0x2000 :: u64) \<noteq> 0)))
    (armed_system example_target (wire ''qSymbol::''))"
    by (rule symbols_delivered [OF armed_settled example_target_ok(1,3)]) simp
  then show ?thesis
  proof (rule inevitable_mono, elim exE conjE)
    fix s' t'
    let ?out = "map (\<lambda>i. wire (''qSymbol:'' @ symbol_name i)) [0..<Symbol_Count]"
    assume "settled t' ([] @ ?out @ (if True then [''+''] else []) @ [wire ''OK'']) [] s'"
      "m_symbols t' = map (\<lambda>i. 0x2000) [0..<Symbol_Count]"
      "m_rtos_avail t' \<longleftrightarrow> (\<forall>i<Symbol_Count. snd (s_symbols_desc ! i) = Required \<longrightarrow> (0x2000 :: u64) \<noteq> 0)"
    then show "\<exists>t' out. settled t' (out @ [''+'', wire ''OK'']) [] s' \<and> length out = 13
        \<and> m_symbols t' = replicate 13 0x2000 \<and> m_rtos_avail t'"
      unfolding c by (intro exI [of _ t'] exI [of _ ?out]) (simp add: Symbol_Count_def)
  qed
qed

end
