(* ===== verification/Conn_Order.thy ===== *)
theory Conn_Order
  imports Closed_System Mb_Symbols
begin

section \<open>Connections: the order of what the client gets\<close>

text \<open>
  The queue of the responses channel against the writes that are under way: as long as the remote
  sends no interrupt, the packets leave the queue in the order they were written, and the
  completion handler of a write finds its transfer. Proved for any target of the contract.
\<close>

abbreviation interrupted :: "'cb channel \<Rightarrow> bool" where
  "interrupted ch \<equiv> [CHR 0x03] \<in> set (ch_sent ch)"

text \<open>What handlers may do to the responses channel: start writes.\<close>

definition grown :: "'cb channel \<Rightarrow> 'cb channel \<Rightarrow> bool" where
  "grown ch ch' =
     ((\<exists>ext. ch_sent ch' = ch_sent ch @ ext)
      \<and> (interrupted ch' \<or>
         (\<exists>new. m_transfers ch' = m_transfers ch @ new
            \<and> ch_writes ch' = ch_writes ch @ map write_key new
            \<and> ch_sent ch' = ch_sent ch @ map (raw_data \<circ> tr_pkt) new)))"

lemma grown_refl [simp]: "grown ch ch"
  by (simp add: grown_def)

lemma grown_trans [trans]:
  assumes "grown a b" and "grown b c"
  shows "grown a c"
proof -
  from assms obtain e1 e2 where e: "ch_sent b = ch_sent a @ e1" "ch_sent c = ch_sent b @ e2"
    unfolding grown_def by blast
  show ?thesis
  proof (cases "interrupted c")
    case True
    with e show ?thesis by (simp add: grown_def)
  next
    case False
    with e have "\<not> interrupted b" by auto
    with False assms obtain n1 n2
      where "m_transfers b = m_transfers a @ n1" "ch_writes b = ch_writes a @ map write_key n1"
        "ch_sent b = ch_sent a @ map (raw_data \<circ> tr_pkt) n1"
        "m_transfers c = m_transfers b @ n2" "ch_writes c = ch_writes b @ map write_key n2"
        "ch_sent c = ch_sent b @ map (raw_data \<circ> tr_pkt) n2"
      unfolding grown_def by blast
    with e show ?thesis unfolding grown_def by (intro conjI disjI2 exI [of _ "n1 @ n2"]) auto
  qed
qed

lemma grown_cong [simp]:
  "grown (ch\<lparr>m_packet := p\<rparr>) ch' = grown ch ch'" "grown ch (ch'\<lparr>m_packet := p\<rparr>) = grown ch ch'"
  "grown (ch\<lparr>ch_reading := b\<rparr>) ch' = grown ch ch'" "grown ch (ch'\<lparr>ch_reading := b\<rparr>) = grown ch ch'"
  by (simp_all add: grown_def)

abbreviation grown_responses :: "('t, 'cb) connection \<Rightarrow> ('t, 'cb) connection \<Rightarrow> bool" where
  "grown_responses c c' \<equiv> grown (get_channel Responses c) (get_channel Responses c')"

lemma raw_brk:
  assumes "done_pkt p" and "pkt_type p = Pt_brk"
  shows "raw_data p = [CHR 0x03]"
proof -
  have "raw_data p = m_data p" using assms(1) by (simp add: done_pkt_def raw_data_def is_complete_def)
  with done_pkt_wire [OF assms(1)] assms(2) show ?thesis by (auto simp: pkt_type_def)
qed

lemma start_write_grown:
  "done_pkt p \<Longrightarrow> grown_responses c (start_write d p i cb c)"
  using raw_brk [of p] by (auto simp: start_write_channel grown_def write_key_def Let_def)

lemma apply_call_grown: "call_ok call \<Longrightarrow> grown_responses c (apply_call call c)"
  by (cases call) (auto simp: call_ok_def data_pkt_done intro: start_write_grown)

lemma apply_calls_grown: "list_all call_ok cs \<Longrightarrow> grown_responses c (apply_calls cs c)"
proof (induction cs arbitrary: c)
  case (Cons call cs)
  then have "grown_responses c (apply_call call c)"
    "grown_responses (apply_call call c) (apply_calls cs (apply_call call c))"
    by (simp_all add: apply_call_grown)
  then show ?case unfolding apply_calls_def by (auto intro: grown_trans)
qed (simp add: apply_calls_def)

context target_contract
begin

lemma handler_grown:
  assumes "packet_handler process_request on_reply dir pkt c = Inr (c', h)" and "conn_ok inv c"
    and "done_pkt pkt"
  shows "grown_responses c c'"
proof (cases "pkt_type pkt = Pt_dat")
  case False
  with assms show ?thesis
    by (cases dir) (auto simp: packet_handler_def on_request_def on_response_def split: list.splits if_splits)
next
  case True
  with assms(3) have d: "data_pkt pkt" by (simp add: data_pkt_def done_pkt_def)
  have i: "inv t" if "m_target c = Some t" for t using assms(2) that by (simp add: conn_ok_def)
  show ?thesis
  proof (cases dir)
    case Requests
    with assms(1) have "on_request process_request pkt c = Inr (c', h)" by (simp add: packet_handler_def)
    from this True show ?thesis
    proof (cases rule: on_requestE)
      case (target t t' cs)
      with apply_calls_grown [OF request_calls [OF i d target(2)],
          of "c\<lparr>conn_seq := conn_seq c + 1, m_target := Some t'\<rparr>"]
      show ?thesis by simp
    qed simp
  next
    case Responses
    with assms(1) have "on_response on_reply pkt c = Inr (c', h)" by (simp add: packet_handler_def)
    from this True show ?thesis
    proof (cases rule: on_responseE)
      case (callback req rest cb t t' cs)
      have "queue_ok (get_channel Requests c)" using assms(2) by (simp add: conn_ok_def)
      then have r: "data_pkt (tr_pkt req)" using callback(1,2) by (simp add: queue_ok_def)
      from apply_calls_grown [OF reply_calls [OF i [OF callback(3)] r d callback(5)],
          of "(ack_mode_update (tr_pkt req) pkt c)\<lparr>m_target := Some t'\<rparr>"] callback(6)
      show ?thesis by simp
    qed simp
  qed
qed

lemma process_packet_grown:
  assumes "process_packet process_request on_reply dir rest c = Inr (c', rest')"
    and "conn_ok inv c" and "idle c"
  shows "grown_responses c c'"
proof -
  from assms(1) obtain pkt n where p: "parse (m_packet (get_channel dir c)) rest = Inr (pkt, n)"
    by (auto simp: process_packet_def res_iff)
  let ?c1 = "upd_channel dir (\<lambda>ch. ch\<lparr>m_packet := pkt\<rparr>) c"
  from assms(2) have i: "pkt_inv pkt" using parse_inv [OF _ p] by (simp add: conn_ok_def)
  with assms(2) have c1: "conn_ok inv ?c1" by (simp add: conn_ok_def queue_ok_def)
  have g1: "grown_responses c ?c1" by simp
  show ?thesis
  proof (cases "is_complete pkt")
    case False
    with assms(1) p g1 show ?thesis by (auto simp: process_packet_def Let_def split: if_splits)
  next
    case True
    with i have d: "done_pkt pkt" by (simp add: done_pkt_def)
    from assms(1) p True obtain c2 h
      where h: "packet_handler process_request on_reply dir pkt ?c1 = Inr (c2, h)"
      and c': "c' = upd_channel dir (\<lambda>ch. ch\<lparr>m_packet := reset (m_packet ch)\<rparr>)
          (if h then c2 else start_write dir pkt False None c2)"
      by (auto simp: process_packet_def res_iff Let_def split: if_splits)
    have "grown_responses c c2" using g1 handler_grown [OF h c1 d] by (rule grown_trans)
    moreover from this start_write_grown [OF d]
    have "grown_responses c (start_write dir pkt False None c2)" by (rule grown_trans)
    ultimately show ?thesis using c' by simp
  qed
qed

lemma process_loop_grown:
  "process_loop process_request on_reply dir rest c = Inr c' \<Longrightarrow> conn_ok inv c \<Longrightarrow> idle c \<Longrightarrow>
     grown_responses c c'"
proof (induction "length rest" arbitrary: rest c rule: less_induct)
  case less
  from less.prems(1) obtain c1 rest1
    where p: "process_packet process_request on_reply dir rest c = Inr (c1, rest1)"
      and l: "(if rest1 = [] then Inr c1 else process_loop process_request on_reply dir rest1 c1) = Inr c'"
    by (subst (asm) process_loop.simps) (auto simp: res_iff)
  note g = process_packet_grown [OF p less.prems(2,3)]
  from process_packet_ok [OF p less.prems(2,3)] have c1: "conn_ok inv c1" "idle c1" by simp_all
  show ?case
  proof (cases "rest1 = []")
    case True
    with l g show ?thesis by simp
  next
    case False
    with process_packet_rest [OF p] have "length rest1 < length rest" by auto
    with less.hyps [OF _ _ c1] l False g show ?thesis by (auto intro: grown_trans)
  qed
qed

end

subsection \<open>The queue and the writes\<close>

text \<open>
  The writes under way belong to the last transfers of the queue. In front of them there are only
  transfers whose write has failed; \<open>b\<close> says whether there may be any.
\<close>

definition in_order :: "bool \<Rightarrow> 'cb channel \<Rightarrow> bool" where
  "in_order b ch =
     (\<exists>delivered stuck pend. m_transfers ch = stuck @ pend \<and> ch_writes ch = map write_key pend
        \<and> ch_sent ch = delivered @ map (raw_data \<circ> tr_pkt) pend \<and> (b \<or> stuck = []))"

definition ordered :: "bool \<Rightarrow> ('t, 'cb) connection \<Rightarrow> bool" where
  "ordered b c = (interrupted (get_channel Responses c) \<or> in_order b (get_channel Responses c))"

fun write_failed :: "event \<Rightarrow> bool" where
  "write_failed (Write_Done Responses ec n) = ec"
| "write_failed e = False"

lemma grown_ordered:
  assumes "grown_responses c c'" and "ordered b c"
  shows "ordered b c'"
proof (cases "interrupted (get_channel Responses c')")
  case False
  from assms(1) False obtain new where new:
    "m_transfers (get_channel Responses c') = m_transfers (get_channel Responses c) @ new"
    "ch_writes (get_channel Responses c') = ch_writes (get_channel Responses c) @ map write_key new"
    "ch_sent (get_channel Responses c') = ch_sent (get_channel Responses c) @ map (raw_data \<circ> tr_pkt) new"
    unfolding grown_def by blast
  with False assms(2) obtain delivered stuck pend where
    "m_transfers (get_channel Responses c) = stuck @ pend"
    "ch_writes (get_channel Responses c) = map write_key pend"
    "ch_sent (get_channel Responses c) = delivered @ map (raw_data \<circ> tr_pkt) pend" "b \<or> stuck = []"
    by (auto simp: ordered_def in_order_def)
  with new show ?thesis
    unfolding ordered_def in_order_def
    by (intro disjI2 exI [of _ delivered] exI [of _ stuck] exI [of _ "pend @ new"]) auto
qed (simp add: ordered_def)

lemma response_write_done:
  assumes "in_order b (get_channel Responses c)" and "ch_writes (get_channel Responses c) = (i, whole) # ws"
  shows "conn_step pr rp (Write_Done Responses False whole) c
      = Inr (upd_channel Responses (\<lambda>ch. ch\<lparr>ch_writes := ws, m_transfers := tl (m_transfers ch)\<rparr>) c)"
    and "conn_step pr rp (Write_Done Responses ec n) c = Inr c' \<Longrightarrow>
      in_order (b \<or> ec) (get_channel Responses c')"
proof -
  from assms(1) obtain delivered stuck pend0 where q0: "m_transfers (get_channel Responses c) = stuck @ pend0"
    "ch_writes (get_channel Responses c) = map write_key pend0"
    "ch_sent (get_channel Responses c) = delivered @ map (raw_data \<circ> tr_pkt) pend0" "b \<or> stuck = []"
    unfolding in_order_def by blast
  with assms(2) obtain tr pend where p: "pend0 = tr # pend" by (cases pend0) auto
  with q0 assms(2) have q: "m_transfers (get_channel Responses c) = stuck @ tr # pend"
    "ch_writes (get_channel Responses c) = write_key tr # map write_key pend"
    "ch_sent (get_channel Responses c) = delivered @ map (raw_data \<circ> tr_pkt) (tr # pend)" "b \<or> stuck = []"
    "tr_id tr = i" "ws = map write_key pend" "whole = length (raw_data (tr_pkt tr))"
    by (auto simp: write_key_def)
  have f: "find (\<lambda>x. tr_id x = i) (stuck @ tr # pend) \<noteq> None" using q(5) by (auto simp: find_None_iff)
  show 1: "conn_step pr rp (Write_Done Responses False whole) c
      = Inr (upd_channel Responses (\<lambda>ch. ch\<lparr>ch_writes := ws, m_transfers := tl (m_transfers ch)\<rparr>) c)"
    using f q(1) assms(2) by (auto simp: write_done_def split: option.split)
  assume s: "conn_step pr rp (Write_Done Responses ec n) c = Inr c'"
  show "in_order (b \<or> ec) (get_channel Responses c')"
  proof (cases ec)
    case True
    with s f q(1) assms(2) have "get_channel Responses c' = (get_channel Responses c)\<lparr>ch_writes := ws\<rparr>"
      by (auto simp: write_done_def shutdown_def split: if_splits option.splits)
    with True q show ?thesis
      unfolding in_order_def
      by (intro exI [of _ "delivered @ [raw_data (tr_pkt tr)]"] exI [of _ "stuck @ [tr]"] exI [of _ pend]) simp
  next
    case False
    with s assms(2) have "n = whole" by (auto simp: write_done_def split: if_splits option.splits)
    with 1 s False have c': "get_channel Responses c'
        = (get_channel Responses c)\<lparr>ch_writes := ws, m_transfers := tl (stuck @ tr # pend)\<rparr>"
      using q(1) by auto
    show ?thesis
    proof (cases stuck)
      case Nil
      with c' q show ?thesis
        unfolding in_order_def
        by (intro exI [of _ "delivered @ [raw_data (tr_pkt tr)]"] exI [of _ "[]"] exI [of _ pend]) simp
    next
      case (Cons x xs)
      with c' q show ?thesis
        unfolding in_order_def
        by (intro exI [of _ "delivered @ [raw_data (tr_pkt tr)]"] exI [of _ "xs @ [tr]"] exI [of _ pend]) simp
    qed
  qed
qed

context target_contract
begin

lemma conn_step_ordered:
  assumes "conn_step process_request on_reply e c = Inr c'" and "conn_ok inv c" and "idle c" and "ordered b c"
  shows "ordered (b \<or> write_failed e) c'"
proof (cases e)
  case (Read_Done dir ec data)
  let ?c = "upd_channel dir (\<lambda>ch. ch\<lparr>ch_reading := False\<rparr>) c"
  have c: "conn_ok inv ?c" "idle ?c" "grown_responses c ?c"
    using assms(2,3) conn_ok_flags(1) by (auto simp: idle_def)
  have "grown_responses c c'"
  proof (cases "\<not> ec \<and> data \<noteq> []")
    case True
    with assms(1) Read_Done obtain c1
      where p: "process_loop process_request on_reply dir data ?c = Inr c1" and c': "c' = start_read dir c1"
      by (auto simp: read_done_def process_data_def res_iff split: if_splits)
    from c(3) process_loop_grown [OF p c(1,2)] have "grown_responses c c1" by (rule grown_trans)
    then show ?thesis by (simp add: c' start_read_def)
  next
    case False
    with assms(1) Read_Done show ?thesis by (auto simp: read_done_def shutdown_def split: if_splits)
  qed
  from grown_ordered [OF this assms(4)] Read_Done show ?thesis by simp
next
  case (Write_Done dir ec n)
  show ?thesis
  proof (cases dir)
    case Requests
    with assms(1) Write_Done have "get_channel Responses c' = get_channel Responses c"
      by (auto simp: write_done_def shutdown_def split: list.splits option.splits if_splits prod.splits)
    with assms(4) Requests Write_Done show ?thesis by (simp add: ordered_def)
  next
    case Responses
    show ?thesis
    proof (cases "ch_writes (get_channel Responses c)")
      case Nil
      with assms Write_Done Responses show ?thesis by (auto simp: ordered_def in_order_def)
    next
      case (Cons w ws)
      have s: "conn_step process_request on_reply (Write_Done Responses ec n) c = Inr c'"
        using assms(1) Write_Done Responses by simp
      then have "ch_sent (get_channel Responses c') = ch_sent (get_channel Responses c)"
        using Cons by (auto simp: write_done_def shutdown_def split: option.splits if_splits prod.splits)
      moreover have "in_order (b \<or> ec) (get_channel Responses c')" if "in_order b (get_channel Responses c)"
        using response_write_done(2) [OF that _ s, of "fst w" "snd w" ws] Cons by simp
      ultimately show ?thesis using assms(4) Write_Done Responses by (auto simp: ordered_def)
    qed
  qed
qed

lemma conn_run_ordered:
  assumes "conn_run process_request on_reply t es c" and "inv t"
  shows "ordered (\<exists>e\<in>set es. write_failed e) c"
  using assms(1)
proof (induction rule: conn_run.induct)
  case conn_armed
  show ?case by (simp add: ordered_def in_order_def start_read_def channel_new_def)
next
  case (conn_event es c e c')
  from conn_run_ok [OF conn_event(1) assms(2)] conn_event have "ordered ((\<exists>e\<in>set es. write_failed e) \<or> write_failed e) c'"
    by (intro conn_step_ordered) auto
  then show ?case by (simp add: disj_commute)
qed

end

text \<open>C13: As long as the remote sends no interrupt, the completion of a write to the client always finds
  its transfer, whatever has happened before; and if no write to the client has failed, the queue
  holds exactly the packets whose write is under way, which are the last ones given to the socket,
  in that order.\<close>

theorem responses_in_order:
  assumes "conn_run mb_process_request mb_on_reply (mb_new junk) es c" and "length junk = Symbol_Count"
    and "[CHR 0x03] \<notin> set (ch_sent (get_channel Responses c))"
  shows "(\<forall>n. event_ok (Write_Done Responses False n) c \<longrightarrow>
      (\<exists>c'. conn_step mb_process_request mb_on_reply (Write_Done Responses False n) c = Inr c'))
    \<and> ((\<forall>e\<in>set es. \<not> write_failed e) \<longrightarrow>
      ch_writes (get_channel Responses c)
        = map (\<lambda>tr. (tr_id tr, length (raw_data (tr_pkt tr)))) (m_transfers (get_channel Responses c))
      \<and> (\<exists>delivered. ch_sent (get_channel Responses c)
          = delivered @ map (\<lambda>tr. raw_data (tr_pkt tr)) (m_transfers (get_channel Responses c))))"
proof (intro conjI impI allI)
  note o = mb_target.conn_run_ordered [OF assms(1) mb_new_inv [OF assms(2)], unfolded ordered_def]
  fix n
  assume "event_ok (Write_Done Responses False n) c"
  then obtain i ws where w: "ch_writes (get_channel Responses c) = (i, n) # ws"
    by (auto split: list.splits)
  from o assms(3) obtain b where "in_order b (get_channel Responses c)" by blast
  from response_write_done(1) [OF this w]
  show "\<exists>c'. conn_step mb_process_request mb_on_reply (Write_Done Responses False n) c = Inr c'" by blast
next
  assume "\<forall>e\<in>set es. \<not> write_failed e"
  then have "in_order False (get_channel Responses c)"
    using mb_target.conn_run_ordered [OF assms(1) mb_new_inv [OF assms(2)]] assms(3)
    by (simp add: ordered_def)
  then show "ch_writes (get_channel Responses c)
      = map (\<lambda>tr. (tr_id tr, length (raw_data (tr_pkt tr)))) (m_transfers (get_channel Responses c))"
    "\<exists>delivered. ch_sent (get_channel Responses c)
      = delivered @ map (\<lambda>tr. raw_data (tr_pkt tr)) (m_transfers (get_channel Responses c))"
    by (auto simp: in_order_def write_key_def comp_def)
qed

lemma wire_size: "wire s \<noteq> []" "length (wire s) = length s + 4"
  by (simp_all add: wire_def)

theorem responses_in_order_witness:
  "\<exists>c. conn_run mb_process_request mb_on_reply (mb_new (replicate 13 0)) [Read_Done Requests False (wire ''qSymbol::'')] c
     \<and> length (ch_writes (get_channel Responses c)) = 1
     \<and> map fst (ch_writes (get_channel Responses c)) = map tr_id (m_transfers (get_channel Responses c))
     \<and> (\<exists>n c'. conn_step mb_process_request mb_on_reply (Write_Done Responses False n) c = Inr c')"
proof -
  let ?t = "mb_new (replicate 13 0)"
  let ?armed = "start_read Responses (start_read Requests (connection_new ?t)) :: (mb, mb_cb) connection"
  let ?c = "upd_channel Requests (\<lambda>ch. ch\<lparr>ch_reading := False\<rparr>) ?armed"
  let ?call = "Internal_Response (symbol_query 0) :: mb_cb conn_call"
  obtain t' where p: "mb_process_request ?t (data_packet ''qSymbol::'') = Inr (t', [?call], True)"
    using symbol_first [of "?t\<lparr>m_conn := []\<rparr>"] by (simp add: mb_process_request_def push_internal_response_def)
  have ok: "call_ok ?call" by (simp add: call_ok_def symbol_query_def)
  let ?cp = "upd_channel Requests (\<lambda>ch. ch\<lparr>m_packet := data_packet ''qSymbol::''\<rparr>) ?c"
  let ?c1 = "upd_channel Requests (\<lambda>ch. ch\<lparr>m_packet := empty_packet\<rparr>)
    (apply_call ?call (?cp\<lparr>conn_seq := conn_seq ?cp + 1, m_target := Some t'\<rparr>))"
  have r: "ready_for_packet Requests ?c" by (simp add: start_read_def channel_new_def)
  have h: "packet_handler mb_process_request mb_on_reply Requests (data_packet ''qSymbol::'') ?cp
      = Inr (apply_call ?call (?cp\<lparr>conn_seq := conn_seq ?cp + 1, m_target := Some t'\<rparr>), True)"
    using p by (simp add: packet_handler_def on_request_def start_read_def Let_def)
  have "process_packet mb_process_request mb_on_reply Requests (wire ''qSymbol::'' @ []) ?c = Inr (?c1, [])"
    using process_wire [OF r, of "''qSymbol::''" mb_process_request mb_on_reply "[]"] h by simp
  then have c1: "process_loop mb_process_request mb_on_reply Requests (wire ''qSymbol::'') ?c = Inr ?c1"
    by (subst process_loop.simps) simp
  let ?c' = "start_read Requests ?c1" and ?e = "Read_Done Requests False (wire ''qSymbol::'')"
  have "\<not> length (wire ''qSymbol::'') \<ge> buffer_capacity" by (simp add: wire_size buffer_capacity_def)
  then have step: "conn_step mb_process_request mb_on_reply ?e ?armed = Inr ?c'"
    using c1 by (simp add: read_done_def process_data_def wire_size(1) del: apply_call.simps)
  have "event_ok ?e ?armed" by (simp add: buffer_capacity_def wire_size start_read_def)
  from conn_run.conn_event [OF conn_run.conn_armed this step]
  have run: "conn_run mb_process_request mb_on_reply ?t [?e] ?c'" by simp
  have q: "ch_sent (get_channel Responses ?c') = [raw_data (symbol_query 0)]"
    "\<exists>i. ch_writes (get_channel Responses ?c') = [(i, length (raw_data (symbol_query 0)))]"
    by (simp_all add: start_read_def start_write_channel channel_new_def)
  have "[CHR 0x03] \<notin> set (ch_sent (get_channel Responses ?c'))"
    unfolding q(1) by (simp add: symbol_query_def wire_def)
  from responses_in_order [OF run _ this] q(2) run show ?thesis
    by (intro exI [of _ ?c']) (auto simp: Symbol_Count_def comp_def)
qed

end
