(* ===== verification/Conn_Failures.thy ===== *)
theory Conn_Failures
  imports Conn_Behaviour
begin

section \<open>Connections: lost requests and failures\<close>

text \<open>
  The situations in which a connection loses track of a request or stops the proxy: an
  acknowledgement while a request is outstanding, a reply that overtakes the completion of its
  request's write, data the parser cannot place, a reply without a request, and a failed write.
\<close>

text \<open>C21: An acknowledgement from the client while a request is outstanding drops the request: when the
  acknowledgement has been written, it is the request that leaves the queue. The reply that
  arrives next is matched with the acknowledgement, so the callback waiting for it never runs,
  and it is sent to the client even if the request was an internal one of the target.\<close>

theorem ack_drops_request:
  assumes "m_transfers (get_channel Requests c) = [req]" and "tr_id req < next_id c"
    and "ch_writes (get_channel Requests c) = []" and "ready_for_packet Requests c"
    and "ready_for_packet Responses c" and "plain s"
  shows "\<exists>c1 c2 c3. conn_step pr rp (Read_Done Requests False ''+'') c = Inr c1
    \<and> conn_step pr rp (Write_Done Requests False 1) c1 = Inr c2
    \<and> map tr_pkt (m_transfers (get_channel Requests c2)) = [ack_pkt]
    \<and> process_packet pr rp Responses (wire s) c2 = Inr (c3, [])
    \<and> m_target c3 = m_target c
    \<and> ch_sent (get_channel Responses c3) = ch_sent (get_channel Responses c) @ [wire s]"
proof -
  let ?c0 = "upd_channel Requests (\<lambda>ch. ch\<lparr>ch_reading := False\<rparr>) c"
  let ?ca = "upd_channel Requests (\<lambda>ch. ch\<lparr>m_packet := empty_packet\<rparr>)
    (start_write Requests ack_pkt False None (upd_channel Requests (\<lambda>ch. ch\<lparr>m_packet := ack_pkt\<rparr>) ?c0))"
  let ?c1 = "start_read Requests ?ca"
  let ?ack = "\<lparr>tr_id = next_id c, tr_pkt = ack_pkt, is_internal = False, on_response_cb = None\<rparr>"
  let ?cw = "upd_channel Requests (\<lambda>ch. ch\<lparr>ch_writes := []\<rparr>) ?c1"
  let ?c2 = "upd_channel Requests (\<lambda>ch. ch\<lparr>m_transfers := tl (m_transfers ch)\<rparr>) ?cw"
  have 1: "conn_step pr rp (Read_Done Requests False ''+'') c = Inr ?c1"
    using assms(4) forward_ack [of ?c0 pr rp] by (simp add: read_done_def buffer_capacity_def process_data_def)
  have q: "m_transfers (get_channel Requests ?cw) = [req, ?ack]"
    using assms(1) by (simp add: start_read_def start_write_channel)
  have w: "ch_writes (get_channel Requests ?c1) = [(next_id c, 1)]"
    using assms(3) by (simp add: start_read_def start_write_channel)
  have "tr_id req \<noteq> next_id c" using assms(2) by simp
  then have 2: "conn_step pr rp (Write_Done Requests False 1) c1 = Inr ?c2" if "c1 = ?c1" for c1
    unfolding that using q w by (simp add: write_done_def)
  have t: "m_transfers (get_channel Requests ?c2) = ?ack # []" using q by simp
  have r: "ready_for_packet Responses ?c2"
    using assms(5) by (simp add: start_read_def start_write_channel)
  from response_plain_wire [OF t _ _ r assms(6), of pr rp "[]"] obtain c3
    where 3: "process_packet pr rp Responses (wire s @ []) ?c2 = Inr (c3, [])"
      "m_target c3 = m_target ?c2"
      "ch_sent (get_channel Responses c3) = ch_sent (get_channel Responses ?c2) @ [wire s]" by auto
  with 1 2 [OF refl] t 3 show ?thesis
    by (intro exI conjI) (assumption | simp add: start_read_def start_write_channel)+
qed

theorem ack_drops_request_witness:
  "\<exists>c1 c2 c3. conn_step null_process_request null_on_reply (Read_Done Requests False ''+'')
        (waiting ((connection_new ())\<lparr>next_id := 1\<rparr>)
          [\<lparr>tr_id = 0, tr_pkt = data_packet ''m0,4'', is_internal = True, on_response_cb = Some ()\<rparr>]) = Inr c1
    \<and> conn_step null_process_request null_on_reply (Write_Done Requests False 1) c1 = Inr c2
    \<and> process_packet null_process_request null_on_reply Responses (wire ''00'') c2 = Inr (c3, [])
    \<and> ch_sent (get_channel Responses c3) = [wire ''00'']"
proof -
  let ?req = "\<lparr>tr_id = 0, tr_pkt = data_packet ''m0,4'', is_internal = True, on_response_cb = Some ()\<rparr>"
  let ?c = "waiting ((connection_new ())\<lparr>next_id := 1\<rparr>) [?req]"
  have q: "m_transfers (get_channel Requests ?c) = [?req]" "tr_id ?req < next_id ?c"
    "ch_writes (get_channel Requests ?c) = []" "ready_for_packet Requests ?c"
    "ready_for_packet Responses ?c" "plain ''00''" "ch_sent (get_channel Responses ?c) = []"
    by (simp_all add: channel_new_def)
  from ack_drops_request [OF q(1-6), of null_process_request null_on_reply] obtain c1 c2 c3
    where "conn_step null_process_request null_on_reply (Read_Done Requests False ''+'') ?c = Inr c1"
      and "conn_step null_process_request null_on_reply (Write_Done Requests False 1) c1 = Inr c2"
      and "process_packet null_process_request null_on_reply Responses (wire ''00'') c2 = Inr (c3, [])"
      and "ch_sent (get_channel Responses c3) = ch_sent (get_channel Responses ?c) @ [wire ''00'']"
    by (elim exE conjE) (rule that)
  then show ?thesis unfolding q(7) append_Nil by (intro exI conjI)
qed

text \<open>C36: If the reply to a request is handled before the completion of the request's own write, the
  completion handler uses a reference to a transfer that has left the queue.\<close>

theorem early_reply_dangles:
  assumes "m_transfers (get_channel Requests c) = [req]" and "on_response_cb req = None"
    and "\<not> is_internal req" and "ch_writes (get_channel Requests c) = [(tr_id req, n)]"
    and "ready_for_packet Responses c" and "plain s" and "length (wire s) < buffer_capacity"
  shows "\<exists>c1. conn_step pr rp (Read_Done Responses False (wire s)) c = Inr c1
    \<and> conn_step pr rp (Write_Done Requests False n) c1 = Inl Undefined"
proof -
  let ?c = "upd_channel Responses (\<lambda>ch. ch\<lparr>ch_reading := False\<rparr>) c"
  let ?c1 = "upd_channel Responses (\<lambda>ch. ch\<lparr>m_packet := data_packet s\<rparr>) ?c"
  let ?c3 = "upd_channel Requests (\<lambda>ch. ch\<lparr>m_transfers := tl (m_transfers ch)\<rparr>)
    (ack_mode_update (tr_pkt req) (data_packet s) ?c1)"
  have t: "m_transfers (m_requests_channel ?c1) = [req]" using assms(1) by (simp add: requests_channel)
  have h: "packet_handler pr rp Responses (data_packet s) ?c1 = Inr (?c3, False)"
    using assms(2,3) t by (simp add: packet_handler_def on_response_def Let_def)
  let ?c4 = "upd_channel Responses (\<lambda>ch. ch\<lparr>m_packet := empty_packet\<rparr>)
    (start_write Responses (data_packet s) False None ?c3)"
  have r: "ready_for_packet Responses ?c" using assms(5) by simp
  have "process_packet pr rp Responses (wire s) ?c = Inr (?c4, [])"
    using process_wire [OF r assms(6), of pr rp "[]"] h by simp
  then have "process_loop pr rp Responses (wire s) ?c = Inr ?c4"
    by (subst process_loop.simps) simp
  moreover have "wire s \<noteq> []" by (simp add: wire_def)
  ultimately have 1: "conn_step pr rp (Read_Done Responses False (wire s)) c = Inr (start_read Responses ?c4)"
    using assms(7) by (simp add: read_done_def process_data_def)
  have "m_transfers (get_channel Requests ?c3) = []" "ch_writes (get_channel Requests ?c3) = [(tr_id req, n)]"
    using assms(1,4) by simp_all
  then have "conn_step pr rp (Write_Done Requests False n) (start_read Responses ?c4) = Inl Undefined"
    by (simp add: write_done_def start_read_def start_write_channel)
  with 1 show ?thesis by blast
qed

theorem early_reply_dangles_witness:
  "\<exists>c1. conn_step null_process_request null_on_reply (Read_Done Responses False (wire ''OK''))
        (upd_channel Requests (\<lambda>ch. ch\<lparr>ch_writes := [(0, 5)]\<rparr>) (waiting (connection_new ())
          [\<lparr>tr_id = 0, tr_pkt = data_packet ''g'', is_internal = False, on_response_cb = None\<rparr>])) = Inr c1
    \<and> conn_step null_process_request null_on_reply (Write_Done Requests False 5) c1 = Inl Undefined"
  by (rule early_reply_dangles [where req = "\<lparr>tr_id = 0, tr_pkt = data_packet ''g'',
        is_internal = False, on_response_cb = None\<rparr>"])
    (simp_all add: channel_new_def wire_def buffer_capacity_def hex_byte_def)

text \<open>C37: What stops the proxy on a read, whatever the target: a full buffer, whose closing NUL is
  written past the array; a byte between packets that cannot begin one; and a data packet of the
  remote that no request waits for.\<close>

theorem read_failures:
  "(length data = buffer_capacity \<longrightarrow> conn_step pr rp (Read_Done dir ec data) c = Inl Undefined)
   \<and> (ready_for_packet dir c \<and> \<not> packet_start ch \<and> length data + 1 < buffer_capacity \<longrightarrow>
        conn_step pr rp (Read_Done dir False (ch # data)) c = Inl Assertion_Failed)
   \<and> (ready_for_packet Responses c \<and> m_transfers (get_channel Requests c) = [] \<and> plain s
        \<and> length (wire s @ data) < buffer_capacity \<longrightarrow>
        conn_step pr rp (Read_Done Responses False (wire s @ data)) c = Inl Undefined)"
proof (intro conjI impI)
  assume "length data = buffer_capacity"
  then show "conn_step pr rp (Read_Done dir ec data) c = Inl Undefined" by (simp add: read_done_def)
next
  assume a: "ready_for_packet dir c \<and> \<not> packet_start ch \<and> length data + 1 < buffer_capacity"
  then have "parse empty_packet (ch # data) = Inr (empty_packet, 0)"
    by (simp add: parse_def empty_packet_def is_invalid_def)
  with a show "conn_step pr rp (Read_Done dir False (ch # data)) c = Inl Assertion_Failed"
    by (simp add: read_done_def process_data_def process_loop.simps [of pr rp dir "ch # data"]
        process_packet_def)
next
  assume a: "ready_for_packet Responses c \<and> m_transfers (get_channel Requests c) = [] \<and> plain s
    \<and> length (wire s @ data) < buffer_capacity"
  let ?c = "upd_channel Responses (\<lambda>ch. ch\<lparr>ch_reading := False\<rparr>) c"
  have r: "ready_for_packet Responses ?c" using a by simp
  have "packet_handler pr rp Responses (data_packet s)
      (upd_channel Responses (\<lambda>ch. ch\<lparr>m_packet := data_packet s\<rparr>) ?c) = Inl Undefined"
    using a by (simp add: packet_handler_def on_response_def requests_channel)
  then have "process_packet pr rp Responses (wire s @ data) ?c = Inl Undefined"
    using process_wire [OF r, of s pr rp data] a by simp
  moreover have "wire s @ data \<noteq> []" by (simp add: wire_def)
  ultimately show "conn_step pr rp (Read_Done Responses False (wire s @ data)) c = Inl Undefined"
    using a by (simp add: read_done_def process_data_def process_loop.simps [of pr rp Responses "wire s @ data"])
qed

theorem read_failures_witness:
  "conn_step null_process_request null_on_reply (Read_Done Requests False ''x'') (connection_new ())
     = Inl Assertion_Failed
   \<and> conn_step null_process_request null_on_reply (Read_Done Responses False (wire ''OK'')) (connection_new ())
     = Inl Undefined"
proof -
  let ?c = "connection_new () :: (unit, unit) connection"
  have 1: "ready_for_packet Requests ?c \<and> \<not> packet_start (CHR ''x'')
      \<and> length ([] :: string) + 1 < buffer_capacity"
    by (simp add: channel_new_def packet_start_def buffer_capacity_def)
  have 2: "ready_for_packet Responses ?c \<and> m_transfers (get_channel Requests ?c) = [] \<and> plain ''OK''
      \<and> length (wire ''OK'' @ []) < buffer_capacity"
    by (simp add: channel_new_def wire_def buffer_capacity_def hex_byte_def)
  show ?thesis
    using read_failures [THEN conjunct2, THEN conjunct1, THEN mp, OF 1, of null_process_request null_on_reply]
      read_failures [THEN conjunct2, THEN conjunct2, THEN mp, OF 2, of null_process_request null_on_reply]
    by simp
qed

text \<open>A write that fails before everything has been written does not reach the code that closes the
  connection: the assertion in front of it fails.\<close>

theorem failed_write_asserts:
  assumes "ch_writes (get_channel dir c) = (tr_id req, whole) # ws"
    and "req \<in> set (m_transfers (get_channel dir c))" and "n < whole"
  shows "conn_step pr rp (Write_Done dir True n) c = Inl Assertion_Failed"
proof -
  have "find (\<lambda>tr. tr_id tr = tr_id req) (m_transfers (get_channel dir c)) \<noteq> None"
    using assms(2) by (auto simp: find_None_iff)
  then show ?thesis using assms(1,3) by (auto simp: write_done_def)
qed

theorem failed_write_asserts_witness:
  "conn_step null_process_request null_on_reply (Write_Done Requests True 0)
     (start_write Requests (data_packet ''g'') False None (connection_new ())) = Inl Assertion_Failed"
  by (rule failed_write_asserts [where req = "\<lparr>tr_id = 0, tr_pkt = data_packet ''g'',
        is_internal = False, on_response_cb = None\<rparr>" and whole = "length (wire ''g'')" and ws = "[]"])
    (simp_all add: start_write_channel channel_new_def next_id_new wire_def)

end
