(* ===== verification/Server.thy ===== *)
theory Server
  imports Conn_Safety
begin

section \<open>Accepting and connecting (proxy-server.cpp, proxy-conn.cpp)\<close>

text \<open>
  The server accepts clients one after the other and gives each connection one of its I/O
  services in turn; a connection resolves the remote's name and tries the addresses it gets until
  one accepts. The resolver, the acceptor and the sockets are the environment: their results are
  arguments of the handlers.
\<close>

subsection \<open>The target of a connection\<close>

datatype any_target = Target_mb_freertos mb | Target_null

text \<open>The first contents of the FreeRTOS target's symbol table are not determined.\<close>

definition make_target :: "string \<Rightarrow> string list \<Rightarrow> u64 list \<Rightarrow> any_target res" where
  "make_target name options junk =
     (if name = ''mb_freertos'' then Inr (Target_mb_freertos (mb_new junk))
      else if name = ''null'' then Inr Target_null
      else Inl System_Error)"

text \<open>The virtual calls through the pointer to the target.\<close>

definition any_process_request ::
  "any_target \<Rightarrow> gdb_packet \<Rightarrow> (any_target \<times> mb_cb conn_call list \<times> bool) res" where
  "any_process_request t pkt =
     (case t of
        Target_mb_freertos mb \<Rightarrow>
          bind_res (mb_process_request mb pkt) (\<lambda>(mb', cs, h). Inr (Target_mb_freertos mb', cs, h))
      | Target_null \<Rightarrow> Inr (Target_null, [], False))"

definition any_on_reply ::
  "mb_cb \<Rightarrow> gdb_packet \<Rightarrow> gdb_packet \<Rightarrow> any_target \<Rightarrow> (any_target \<times> mb_cb conn_call list) res" where
  "any_on_reply cb req reply t =
     (case t of
        Target_mb_freertos mb \<Rightarrow>
          bind_res (mb_on_reply cb req reply mb) (\<lambda>(mb', cs). Inr (Target_mb_freertos mb', cs))
      | Target_null \<Rightarrow> Inr (Target_null, []))"

definition any_inv :: "any_target \<Rightarrow> bool" where
  "any_inv t = (case t of Target_mb_freertos mb \<Rightarrow> mb_inv mb | Target_null \<Rightarrow> True)"

interpretation any_target: target_contract any_process_request any_on_reply any_inv
proof
  fix t p t' cs h
  assume i: "any_inv t" and p: "data_pkt p" and r: "any_process_request t p = Inr (t', cs, h)"
  then show "any_inv t'" and "list_all call_ok cs"
    using mb_target.request_inv mb_target.request_calls
    by (auto simp: any_process_request_def any_inv_def res_iff split: any_target.splits)
next
  fix t req rep cb t' cs
  assume i: "any_inv t" and p: "data_pkt req" "data_pkt rep" and r: "any_on_reply cb req rep t = Inr (t', cs)"
  then show "any_inv t'" and "list_all call_ok cs"
    using mb_target.reply_inv mb_target.reply_calls
    by (auto simp: any_on_reply_def any_inv_def res_iff split: any_target.splits)
qed

lemma make_target_inv:
  "make_target name options junk = Inr t \<Longrightarrow> length junk = Symbol_Count \<Longrightarrow> any_inv t"
  by (auto simp: make_target_def any_inv_def mb_new_inv split: if_splits)

subsection \<open>Connecting to the remote\<close>

text \<open>The members of a connection that are set by its constructor and used to connect.\<close>

record 'ios client =
  conn_io_service :: 'ios
  fServer :: string
  fPort :: int
  client_target :: any_target

text \<open>The target's options are taken by its constructor, which does not look at them.\<close>

definition connection_create ::
  "'ios \<Rightarrow> string \<Rightarrow> string list \<Rightarrow> string \<Rightarrow> int \<Rightarrow> u64 list \<Rightarrow> 'ios client res" where
  "connection_create ios target options remote_host remote_port junk =
     bind_res (make_target target options junk) (\<lambda>t.
     Inr \<lparr>conn_io_service = ios, fServer = remote_host, fPort = remote_port, client_target = t\<rparr>)"

text \<open>\<open>std::to_string\<close>; the query that \<open>start\<close> hands to the resolver.\<close>

fun decimal :: "nat \<Rightarrow> string" where
  "decimal n = (if n < 10 then [] else decimal (n div 10)) @ [char_of (48 + n mod 10)]"

declare decimal.simps [simp del]

definition to_string_int :: "int \<Rightarrow> string" where
  "to_string_int i = (if i < 0 then CHR ''-'' # decimal (nat (- i)) else decimal (nat i))"

definition start_connect :: "'ios client \<Rightarrow> string \<times> string" where
  "start_connect c = (fServer c, to_string_int (fPort c))"

datatype 'e connect_step = Arm_Channels | Async_Connect 'e "'e list" | Shut_Down

definition handle_connect :: "bool \<Rightarrow> 'e list \<Rightarrow> bool \<Rightarrow> 'e connect_step" where
  "handle_connect err endpoints first_time =
     (if \<not> err \<and> \<not> first_time then Arm_Channels
      else case endpoints of
             endpoint # endpoint_iterator \<Rightarrow> Async_Connect endpoint endpoint_iterator
           | [] \<Rightarrow> Shut_Down)"

definition handle_resolve :: "bool \<Rightarrow> 'e list \<Rightarrow> 'e connect_step" where
  "handle_resolve err endpoints = (if \<not> err then handle_connect False endpoints True else Shut_Down)"

text \<open>The steps that follow, for a network in which the endpoints of \<open>accepts\<close> accept: the endpoints
  tried, and whether the channels are armed in the end.\<close>

function connect_run :: "('e \<Rightarrow> bool) \<Rightarrow> 'e connect_step \<Rightarrow> 'e list \<times> bool" where
  "connect_run accepts Arm_Channels = ([], True)"
| "connect_run accepts Shut_Down = ([], False)"
| "connect_run accepts (Async_Connect e es) =
     (let (tried, ok) = connect_run accepts (handle_connect (\<not> accepts e) es False) in (e # tried, ok))"
  by pat_completeness auto

fun connect_size :: "'e connect_step \<Rightarrow> nat" where
  "connect_size (Async_Connect e es) = Suc (Suc (length es))"
| "connect_size s = 0"

lemma handle_connect_size: "connect_size (handle_connect err es first) \<le> Suc (length es)"
  by (cases es) (auto simp: handle_connect_def)

termination connect_run
  by (relation "measure (\<lambda>(accepts, s). connect_size s)")
    (auto intro: le_less_trans [OF handle_connect_size])

lemma connect_run_from:
  "connect_run accepts (handle_connect True es first) =
     (takeWhile (\<lambda>e. \<not> accepts e) es @ take 1 (dropWhile (\<lambda>e. \<not> accepts e) es), \<exists>e\<in>set es. accepts e)"
proof (induction es arbitrary: first)
  case Nil
  then show ?case by (simp add: handle_connect_def)
next
  case (Cons e es)
  have s: "handle_connect True (e # es) first = Async_Connect e es" by (simp add: handle_connect_def)
  show ?case
  proof (cases "accepts e")
    case True
    then show ?thesis by (simp add: s) (simp add: handle_connect_def)
  next
    case False
    then show ?thesis using Cons [of False] by (simp add: s)
  qed
qed

text \<open>C38: After the name has been resolved, the proxy tries the addresses in their order up to the
  first that accepts, none twice, and arms its channels exactly if there is one; otherwise, and if
  the name cannot be resolved, it closes the connection. The sequence always ends.\<close>

theorem connect_first_accepting:
  "connect_run accepts (handle_resolve err endpoints) =
    (if err then ([], False)
     else (takeWhile (\<lambda>e. \<not> accepts e) endpoints @ take 1 (dropWhile (\<lambda>e. \<not> accepts e) endpoints),
           \<exists>e\<in>set endpoints. accepts e))"
proof -
  have "handle_connect False endpoints True = handle_connect True endpoints True"
    by (simp add: handle_connect_def)
  then show ?thesis using connect_run_from [of accepts endpoints True] by (simp add: handle_resolve_def)
qed

subsection \<open>Accepting clients\<close>

text \<open>
  \<open>waiting_conn\<close> is the connection that waits for the acceptor, \<open>started\<close> those that have been handed
  a client. Making the endpoint and binding the acceptor to it may throw; that is the parameter
  \<open>bind_acceptor\<close>. An endpoint without an address is any address of the host; a
  port number is an \<open>unsigned short\<close>, to which the \<open>int\<close> of the option is converted.
  \<open>server_symbols\<close> gives the first contents of the symbol table of each connection's target, by the
  number of the connection.
\<close>

record 'ios server =
  io_services :: "'ios list"
  server_endpoint :: "string option \<times> 16 word"
  m_target_name :: string
  m_remote_host :: string
  m_remote_port :: int
  m_target_options :: "string list"
  server_symbols :: "nat \<Rightarrow> u64 list"
  waiting_conn :: "'ios client option"
  started :: "'ios client list"

definition start_accept :: "'ios server \<Rightarrow> 'ios server res" where
  "start_accept s =
     (case io_services s of
        [] \<Rightarrow> Inl Undefined
      | front # rest \<Rightarrow>
          let s' = s\<lparr>io_services := rest @ [front]\<rparr> in
          bind_res (connection_create (hd (io_services s')) (m_target_name s') (m_target_options s')
                      (m_remote_host s') (m_remote_port s') (server_symbols s' (length (started s')))) (\<lambda>new_connection.
          Inr (s'\<lparr>waiting_conn := Some new_connection\<rparr>)))"

definition handle_accept :: "bool \<Rightarrow> 'ios server \<Rightarrow> 'ios server res" where
  "handle_accept err s =
     (case waiting_conn s of
        None \<Rightarrow> Inr s
      | Some new_connection \<Rightarrow>
          let s' = s\<lparr>waiting_conn := None\<rparr> in
          if \<not> err then start_accept (s'\<lparr>started := started s' @ [new_connection]\<rparr>) else Inr s')"

definition server_new ::
  "(string option \<times> 16 word \<Rightarrow> unit res) \<Rightarrow> 'ios list \<Rightarrow> string \<Rightarrow> string list \<Rightarrow> int \<Rightarrow> string \<Rightarrow> string \<Rightarrow> int
     \<Rightarrow> (nat \<Rightarrow> u64 list) \<Rightarrow> 'ios server res" where
  "server_new bind_acceptor services target argv port interface_address remote_host remote_port junk =
     (let endpoint = (if interface_address = [] then None else Some interface_address, word_of_int port) in
      if services = [] then Inl Undefined
      else
        bind_res (bind_acceptor endpoint) (\<lambda>_.
        start_accept \<lparr>io_services = services, server_endpoint = endpoint, m_target_name = target,
          m_remote_host = remote_host, m_remote_port = remote_port, m_target_options = argv,
          server_symbols = junk, waiting_conn = None, started = []\<rparr>))"

fun accept_all :: "bool list \<Rightarrow> 'ios server \<Rightarrow> 'ios server res" where
  "accept_all [] s = Inr s"
| "accept_all (err # errs) s = bind_res (handle_accept err s) (accept_all errs)"

abbreviation known_target :: "string \<Rightarrow> bool" where
  "known_target name \<equiv> name = ''mb_freertos'' \<or> name = ''null''"

text \<open>The server after \<open>n\<close> accepted clients.\<close>

definition nth_client :: "'ios list \<Rightarrow> 'ios server \<Rightarrow> (nat \<Rightarrow> any_target) \<Rightarrow> nat \<Rightarrow> 'ios client" where
  "nth_client services s t k = \<lparr>conn_io_service = services ! (Suc k mod length services),
     fServer = m_remote_host s, fPort = m_remote_port s, client_target = t k\<rparr>"

definition serving :: "'ios list \<Rightarrow> (nat \<Rightarrow> any_target) \<Rightarrow> 'ios server \<Rightarrow> nat \<Rightarrow> 'ios server" where
  "serving services t s n =
     s\<lparr>io_services := rotate (Suc n) services, waiting_conn := Some (nth_client services s t n),
       started := map (nth_client services s t) [0..<n]\<rparr>"

lemma start_accept_rotate:
  assumes "io_services s = rotate n services" and "services \<noteq> []"
    and "make_target (m_target_name s) (m_target_options s) (server_symbols s (length (started s))) = Inr (t n)"
  shows "start_accept s = Inr (s\<lparr>io_services := rotate (Suc n) services,
    waiting_conn := Some (nth_client services s t n)\<rparr>)"
proof -
  obtain x xs where r: "rotate n services = x # xs"
    using assms(2) by (cases "rotate n services") (auto simp: rotate_is_Nil_conv)
  then have r': "rotate (Suc n) services = xs @ [x]" by simp
  have "hd (rotate (Suc n) services) = services ! (Suc n mod length services)"
    using assms(2) by (rule hd_rotate_conv_nth)
  then show ?thesis
    using assms(1,3)
    by (simp add: start_accept_def connection_create_def nth_client_def r r' del: rotate_Suc)
qed

lemma nth_client_cong [simp]:
  "nth_client services (s\<lparr>io_services := a\<rparr>) t = nth_client services s t"
  "nth_client services (s\<lparr>waiting_conn := b\<rparr>) t = nth_client services s t"
  "nth_client services (s\<lparr>started := c\<rparr>) t = nth_client services s t"
  by (simp_all add: fun_eq_iff nth_client_def)

lemma handle_accept_serving:
  assumes "services \<noteq> []"
    and "\<forall>k. make_target (m_target_name s) (m_target_options s) (server_symbols s k) = Inr (t k)"
  shows "handle_accept False (serving services t s n) = Inr (serving services t s (Suc n))"
proof -
  let ?s = "(serving services t s n)\<lparr>waiting_conn := None, started := map (nth_client services s t) [0..<Suc n]\<rparr>"
  have "handle_accept False (serving services t s n) = start_accept ?s"
    by (simp add: handle_accept_def serving_def)
  also have "\<dots> = Inr (?s\<lparr>io_services := rotate (Suc (Suc n)) services,
      waiting_conn := Some (nth_client services ?s t (Suc n))\<rparr>)"
    by (rule start_accept_rotate) (use assms in \<open>simp_all add: serving_def\<close>)
  finally show ?thesis by (simp add: serving_def del: rotate_Suc)
qed

lemma accept_all_serving:
  assumes "services \<noteq> []"
    and "\<forall>k. make_target (m_target_name s) (m_target_options s) (server_symbols s k) = Inr (t k)"
  shows "accept_all (replicate k False) (serving services t s n) = Inr (serving services t s (n + k))"
  by (induction k arbitrary: n) (simp_all add: handle_accept_serving [OF assms])

lemma accept_all_append: "accept_all (xs @ ys) (s :: 'ios server) = bind_res (accept_all xs s) (accept_all ys)"
proof (induction xs arbitrary: s)
  case (Cons x xs)
  have "accept_all (xs @ ys) = (\<lambda>s :: 'ios server. bind_res (accept_all xs s) (accept_all ys))"
    by (rule ext) (rule Cons.IH)
  then show ?case by (simp add: bind_res_assoc)
qed simp

lemma accept_all_stopped: "waiting_conn s = None \<Longrightarrow> accept_all errs s = Inr s"
  by (induction errs arbitrary: s) (simp_all add: handle_accept_def)

lemma server_new_ok:
  assumes "services \<noteq> []" and "bind_acceptor (if interface = [] then None else Some interface, word_of_int port) = Inr ()"
    and "make_target name argv (junk 0) = Inr (t 0)"
  shows "server_new bind_acceptor services name argv port interface host rport junk
    = Inr (serving services t \<lparr>io_services = services,
        server_endpoint = (if interface = [] then None else Some interface, word_of_int port), m_target_name = name,
        m_remote_host = host, m_remote_port = rport, m_target_options = argv, server_symbols = junk,
        waiting_conn = None, started = []\<rparr> 0)"
  using start_accept_rotate [of _ 0 services t] assms
  by (simp add: server_new_def Let_def serving_def del: rotate_Suc)

lemma known_targets:
  assumes "known_target name"
  obtains t where "\<forall>k. make_target name argv (junk k) = Inr (t k)"
proof
  show "\<forall>k. make_target name argv (junk k)
      = Inr ((\<lambda>k. if name = ''mb_freertos'' then Target_mb_freertos (mb_new (junk k)) else Target_null) k)"
    using assms by (auto simp: make_target_def)
qed

text \<open>C39: For the two target names the program knows, the connections are given the I/O services in
  turn, beginning with the second; one failed accept, and the server accepts no client any more.
  For any other name the server is not even constructed.\<close>

theorem accept_round_robin:
  assumes "services \<noteq> []" and "bind_acceptor (if interface = [] then None else Some interface, word_of_int port) = Inr ()"
  shows "(if known_target name
    then \<exists>s. bind_res (server_new bind_acceptor services name argv port interface host rport junk)
            (accept_all (replicate n False @ True # errs)) = Inr s
       \<and> map conn_io_service (started s) = map (\<lambda>k. services ! (Suc k mod length services)) [0..<n]
       \<and> waiting_conn s = None
    else server_new bind_acceptor services name argv port interface host rport junk = Inl System_Error)"
proof (cases "known_target name")
  case False
  with assms show ?thesis
    by (cases services) (simp_all add: server_new_def start_accept_def connection_create_def make_target_def)
next
  case True
  then obtain t where t: "\<forall>k. make_target name argv (junk k) = Inr (t k)" by (rule known_targets)
  let ?s = "\<lparr>io_services = services, server_endpoint = (if interface = [] then None else Some interface, word_of_int port),
      m_target_name = name, m_remote_host = host, m_remote_port = rport, m_target_options = argv,
      server_symbols = junk, waiting_conn = None, started = []\<rparr>"
  have "handle_accept True (serving services t ?s n) = Inr ((serving services t ?s n)\<lparr>waiting_conn := None\<rparr>)"
    by (simp add: handle_accept_def serving_def)
  then show ?thesis
    using True t accept_all_serving [OF assms(1), of ?s t n 0]
    by (simp add: server_new_ok [where bind_acceptor = bind_acceptor and junk = junk and t = t, OF assms spec [OF t]] accept_all_append accept_all_stopped)
      (simp add: serving_def nth_client_def comp_def)
qed

theorem accept_round_robin_witness:
  "\<exists>s. bind_res (server_new (\<lambda>_. Inr ()) [''a'', ''b''] ''null'' [] 4002 ''127.0.0.1'' ''localhost'' 3002 (\<lambda>_. []))
        (accept_all [False, False, True, False]) = Inr s
     \<and> map conn_io_service (started s) = [''b'', ''a''] \<and> waiting_conn s = None"
  using accept_round_robin [of "[''a'', ''b'']" "\<lambda>_. Inr ()" "''127.0.0.1''" 4002 "''null''" "[]" "''localhost''" 3002 "\<lambda>_. []" 2 "[False]"]
  by (simp add: numeral_2_eq_2)

end
