(* ===== verification/Proxy.thy ===== *)
theory Proxy
  imports Server
begin

section \<open>The program (proxy.cpp) and all its connections\<close>

text \<open>
  The life of every client's connection under the server, from the accepted client over the
  resolver and the attempts to connect to the two armed channels, with the events of all
  connections interleaved; and \<open>main\<close>, which reads the command line and sets the server up.
\<close>

subsection \<open>Connections and their events\<close>

text \<open>
  A connection waits for the resolver, for an attempt to connect, or has its channels armed; a
  connection that gives up is closed. All of them share the thread of the I/O service, so an event
  of one is handled before the next event of any.
\<close>

datatype 'e link =
    Link_Resolving any_target
  | Link_Connecting any_target 'e "'e list"   \<comment> \<open>the address tried, and those left\<close>
  | Link_Armed "(any_target, mb_cb) connection"
  | Link_Closed

definition arm_channels :: "any_target \<Rightarrow> (any_target, mb_cb) connection" where
  "arm_channels t = start_read Responses (start_read Requests (connection_new t))"

fun link_after :: "any_target \<Rightarrow> 'e connect_step \<Rightarrow> 'e link" where
  "link_after t Arm_Channels = Link_Armed (arm_channels t)"
| "link_after t (Async_Connect e es) = Link_Connecting t e es"
| "link_after t Shut_Down = Link_Closed"

record ('ios, 'e) proxy =
  p_server :: "'ios server"
  p_links :: "'e link list"

datatype 'e proxy_event =
    Accepted bool
  | Resolved nat bool "'e list"
  | Connected nat bool
  | Conn_Event nat event

text \<open>An event can only happen to a connection that waits for it.\<close>

fun proxy_event_ok :: "'e proxy_event \<Rightarrow> ('ios, 'e) proxy \<Rightarrow> bool" where
  "proxy_event_ok (Accepted err) p = (waiting_conn (p_server p) \<noteq> None)"
| "proxy_event_ok (Resolved i err es) p =
     (i < length (p_links p) \<and> (case p_links p ! i of Link_Resolving t \<Rightarrow> True | _ \<Rightarrow> False))"
| "proxy_event_ok (Connected i err) p =
     (i < length (p_links p) \<and> (case p_links p ! i of Link_Connecting t e es \<Rightarrow> True | _ \<Rightarrow> False))"
| "proxy_event_ok (Conn_Event i e) p =
     (i < length (p_links p) \<and> (case p_links p ! i of Link_Armed c \<Rightarrow> event_ok e c | _ \<Rightarrow> False))"

text \<open>\<open>start\<close> of a connection hands its query to the resolver.\<close>

definition new_links :: "'ios server \<Rightarrow> 'ios server \<Rightarrow> 'e link list" where
  "new_links s s' = map (Link_Resolving \<circ> client_target) (drop (length (started s)) (started s'))"

fun proxy_step :: "'e proxy_event \<Rightarrow> ('ios, 'e) proxy \<Rightarrow> ('ios, 'e) proxy res" where
  "proxy_step (Accepted err) p =
     bind_res (handle_accept err (p_server p)) (\<lambda>s.
     Inr (p\<lparr>p_server := s, p_links := p_links p @ new_links (p_server p) s\<rparr>))"
| "proxy_step (Resolved i err es) p =
     (case p_links p ! i of
        Link_Resolving t \<Rightarrow> Inr (p\<lparr>p_links := (p_links p)[i := link_after t (handle_resolve err es)]\<rparr>)
      | _ \<Rightarrow> Inr p)"
| "proxy_step (Connected i err) p =
     (case p_links p ! i of
        Link_Connecting t e es \<Rightarrow>
          Inr (p\<lparr>p_links := (p_links p)[i := link_after t (handle_connect err es False)]\<rparr>)
      | _ \<Rightarrow> Inr p)"
| "proxy_step (Conn_Event i e) p =
     (case p_links p ! i of
        Link_Armed c \<Rightarrow>
          bind_res (conn_step any_process_request any_on_reply e c) (\<lambda>c'.
          Inr (p\<lparr>p_links := (p_links p)[i := Link_Armed c']\<rparr>))
      | _ \<Rightarrow> Inr p)"

inductive proxy_run :: "'ios server \<Rightarrow> 'e proxy_event list \<Rightarrow> ('ios, 'e) proxy \<Rightarrow> bool" for s where
  proxy_start: "proxy_run s [] \<lparr>p_server = s, p_links = []\<rparr>"
| proxy_event: "proxy_run s es p \<Longrightarrow> proxy_event_ok e p \<Longrightarrow> proxy_step e p = Inr p'
    \<Longrightarrow> proxy_run s (es @ [e]) p'"

subsection \<open>The life of a connection\<close>

text \<open>What has happened to one connection: the answers of the resolver, the attempts to connect (whether
  they failed), and the events of its sockets.\<close>

fun events_of :: "nat \<Rightarrow> 'e proxy_event list \<Rightarrow> event list" where
  "events_of i [] = []"
| "events_of i (Conn_Event j e # es) = (if i = j then e # events_of i es else events_of i es)"
| "events_of i (_ # es) = events_of i es"

fun resolutions :: "nat \<Rightarrow> 'e proxy_event list \<Rightarrow> (bool \<times> 'e list) list" where
  "resolutions i [] = []"
| "resolutions i (Resolved j err eps # es) = (if i = j then (err, eps) # resolutions i es else resolutions i es)"
| "resolutions i (_ # es) = resolutions i es"

fun attempts :: "nat \<Rightarrow> 'e proxy_event list \<Rightarrow> bool list" where
  "attempts i [] = []"
| "attempts i (Connected j err # es) = (if i = j then err # attempts i es else attempts i es)"
| "attempts i (_ # es) = attempts i es"

fun accepted :: "'e proxy_event list \<Rightarrow> nat" where
  "accepted [] = 0"
| "accepted (Accepted err # es) = (if err then accepted es else Suc (accepted es))"
| "accepted (_ # es) = accepted es"

lemma history_append [simp]:
  "events_of i (xs @ ys) = events_of i xs @ events_of i ys"
  "resolutions i (xs @ ys) = resolutions i xs @ resolutions i ys"
  "attempts i (xs @ ys) = attempts i xs @ attempts i ys"
  "accepted (xs @ ys) = accepted xs + accepted ys"
proof -
  show "events_of i (xs @ ys) = events_of i xs @ events_of i ys" by (induction xs rule: events_of.induct) auto
  show "resolutions i (xs @ ys) = resolutions i xs @ resolutions i ys" by (induction xs rule: resolutions.induct) auto
  show "attempts i (xs @ ys) = attempts i xs @ attempts i ys" by (induction xs rule: attempts.induct) auto
  show "accepted (xs @ ys) = accepted xs + accepted ys" by (induction xs rule: accepted.induct) auto
qed

text \<open>The state a connection must be in after such a history, for its target's first state \<open>t\<close>.\<close>

fun link_life :: "any_target \<Rightarrow> (bool \<times> 'e list) list \<Rightarrow> bool list \<Rightarrow> event list \<Rightarrow> 'e link \<Rightarrow> bool" where
  "link_life t rs as es (Link_Resolving t') = (t' = t \<and> rs = [] \<and> as = [] \<and> es = [])"
| "link_life t rs as es (Link_Connecting t' e rest) =
     (t' = t \<and> es = [] \<and> (\<exists>eps k. rs = [(False, eps)] \<and> as = replicate k True \<and> drop k eps = e # rest))"
| "link_life t rs as es (Link_Armed c) =
     (conn_run any_process_request any_on_reply t es c
      \<and> (\<exists>eps k. rs = [(False, eps)] \<and> as = replicate k True @ [False] \<and> k < length eps))"
| "link_life t rs as es Link_Closed =
     (es = [] \<and> (\<exists>eps. rs = [(True, eps)] \<and> as = [] \<or> rs = [(False, eps)] \<and> as = replicate (length eps) True))"

text \<open>The answer of the resolver, and the outcome of an attempt.\<close>

lemma life_resolved:
  assumes "link_life t rs as es (Link_Resolving t')"
  shows "link_life t (rs @ [(err, eps)]) as es (link_after t' (handle_resolve err eps))"
  using assms by (cases eps) (auto simp: handle_resolve_def handle_connect_def)

lemma life_connected:
  assumes "link_life t rs as es (Link_Connecting t' e rest)"
  shows "link_life t rs (as @ [err]) es (link_after t' (handle_connect err rest False))"
proof -
  from assms obtain eps k where h: "t' = t" "es = []" "rs = [(False, eps)]" "as = replicate k True"
    "drop k eps = e # rest" by auto
  have k: "k < length eps" using h(5) by (metis drop_all not_le list.distinct(1))
  have d: "drop (Suc k) eps = rest" using h(5) by (metis drop_Suc drop_tl list.sel(3) tl_drop)
  have r: "as @ [True] = replicate (Suc k) True" using h(4) by (simp add: replicate_append_same)
  show ?thesis
  proof (cases err)
    case False
    then show ?thesis using h k by (auto simp: handle_connect_def arm_channels_def conn_run.conn_armed)
  next
    case True
    show ?thesis
    proof (cases rest)
      case Nil
      then have "Suc k = length eps" using d k by simp
      then show ?thesis using h(2,3) Nil True r by (simp add: handle_connect_def)
    next
      case (Cons e' es')
      have "\<exists>eps' k'. rs = [(False, eps')] \<and> as @ [err] = replicate k' True \<and> drop k' eps' = e' # es'"
        using h(3) True r d Cons by (intro exI [of _ eps] exI [of _ "Suc k"]) simp
      then show ?thesis using h(1,2) Cons True by (simp add: handle_connect_def)
    qed
  qed
qed

definition link_ok :: "(nat \<Rightarrow> any_target) \<Rightarrow> 'e proxy_event list \<Rightarrow> 'e link list \<Rightarrow> nat \<Rightarrow> bool" where
  "link_ok t es ls i =
     (if i < length ls then link_life (t i) (resolutions i es) (attempts i es) (events_of i es) (ls ! i)
      else resolutions i es = [] \<and> attempts i es = [] \<and> events_of i es = [])"

definition proxy_ok :: "(nat \<Rightarrow> any_target) \<Rightarrow> 'e proxy_event list \<Rightarrow> ('ios, 'e) proxy \<Rightarrow> bool" where
  "proxy_ok t es p =
     ((\<forall>k. make_target (m_target_name (p_server p)) (m_target_options (p_server p)) (server_symbols (p_server p) k)
         = Inr (t k))
      \<and> length (p_links p) = length (started (p_server p)) \<and> length (p_links p) = accepted es
      \<and> (\<forall>c. waiting_conn (p_server p) = Some c \<longrightarrow> client_target c = t (length (p_links p)))
      \<and> (\<forall>i. link_ok t es (p_links p) i))"

lemma start_accept_fields:
  assumes "start_accept s = Inr s'"
    and "\<forall>k. make_target (m_target_name s) (m_target_options s) (server_symbols s k) = Inr (t k)"
  shows "m_target_name s' = m_target_name s" "m_target_options s' = m_target_options s"
    "server_symbols s' = server_symbols s" "started s' = started s"
    "\<exists>c. waiting_conn s' = Some c \<and> client_target c = t (length (started s))"
  using assms by (auto simp: start_accept_def connection_create_def Let_def split: list.splits)

lemma handle_accept_fields:
  assumes "handle_accept err s = Inr s'" and "waiting_conn s = Some c"
    and "\<forall>k. make_target (m_target_name s) (m_target_options s) (server_symbols s k) = Inr (t k)"
  shows "m_target_name s' = m_target_name s \<and> m_target_options s' = m_target_options s
    \<and> server_symbols s' = server_symbols s \<and> started s' = started s @ (if err then [] else [c])
    \<and> (\<forall>c'. waiting_conn s' = Some c' \<longrightarrow> client_target c' = t (length (started s')))"
proof (cases err)
  case True
  with assms show ?thesis by (auto simp: handle_accept_def)
next
  case False
  let ?s = "s\<lparr>waiting_conn := None, started := started s @ [c]\<rparr>"
  have "start_accept ?s = Inr s'" using assms(1,2) False by (simp add: handle_accept_def)
  from start_accept_fields [OF this, of t] assms(3) False show ?thesis by auto
qed

lemma proxy_ok_link:
  "proxy_ok t es p \<Longrightarrow> i < length (p_links p) \<Longrightarrow>
     link_life (t i) (resolutions i es) (attempts i es) (events_of i es) (p_links p ! i)"
  unfolding proxy_ok_def link_ok_def by metis

lemma proxy_ok_update:
  assumes "proxy_ok t es p" and "i < length (p_links p)" and "accepted [e] = 0"
    and "link_life (t i) (resolutions i (es @ [e])) (attempts i (es @ [e])) (events_of i (es @ [e])) l"
    and "\<And>j. j \<noteq> i \<Longrightarrow> resolutions j [e] = [] \<and> attempts j [e] = [] \<and> events_of j [e] = []"
  shows "proxy_ok t (es @ [e]) (p\<lparr>p_links := (p_links p)[i := l]\<rparr>)"
proof -
  have "\<forall>j. link_ok t (es @ [e]) ((p_links p)[i := l]) j"
  proof
    fix j
    show "link_ok t (es @ [e]) ((p_links p)[i := l]) j"
    proof (cases "j = i")
      case True
      then show ?thesis using assms(2,4) by (simp add: link_ok_def)
    next
      case False
      have "link_ok t es (p_links p) j" using assms(1) unfolding proxy_ok_def by blast
      then show ?thesis using assms(5) [OF False] False by (simp add: link_ok_def)
    qed
  qed
  then show ?thesis using assms(1,3) by (simp add: proxy_ok_def)
qed

lemma proxy_step_ok:
  fixes p :: "('ios, 'e) proxy"
  assumes "proxy_step e p = Inr p'" and "proxy_event_ok e p" and "proxy_ok t es p"
  shows "proxy_ok t (es @ [e]) p'"
proof (cases e)
  case (Accepted err)
  let ?s = "p_server p"
  obtain c where c: "waiting_conn ?s = Some c" "client_target c = t (length (p_links p))"
    using assms(2,3) Accepted by (auto simp: proxy_ok_def)
  have m: "\<forall>k. make_target (m_target_name ?s) (m_target_options ?s) (server_symbols ?s k) = Inr (t k)"
    using assms(3) by (simp add: proxy_ok_def)
  from assms(1) Accepted obtain s' where s': "handle_accept err ?s = Inr s'"
    and p': "p' = p\<lparr>p_server := s', p_links := p_links p @ new_links ?s s'\<rparr>"
    by (auto simp: res_iff)
  note f = handle_accept_fields [OF s' c(1) m]
  have n: "new_links ?s s' = (if err then [] else [Link_Resolving (t (length (p_links p))) :: 'e link])"
    using f c(2) by (simp add: new_links_def)
  have old: "link_ok t es (p_links p) j" for j
    using assms(3) unfolding proxy_ok_def by blast
  have len: "length (p_links p) = length (started ?s)" "length (p_links p) = accepted es"
    using assms(3) by (simp_all add: proxy_ok_def)
  have "\<forall>j. link_ok t (es @ [e]) (p_links p') j"
  proof
    show "link_ok t (es @ [e]) (p_links p') j" for j
      using old [of j] by (cases err) (auto simp: link_ok_def p' n Accepted nth_append less_Suc_eq)
  qed
  then show ?thesis
    using f m len unfolding proxy_ok_def by (cases err) (simp_all add: p' n Accepted)
next
  case (Resolved i err eps)
  then obtain t' where l: "i < length (p_links p)" "p_links p ! i = Link_Resolving t'"
    using assms(2) by (auto split: link.splits)
  with proxy_ok_link [OF assms(3) l(1)]
  have o: "link_life (t i) (resolutions i es) (attempts i es) (events_of i es) (Link_Resolving t')" by simp
  have p': "p' = p\<lparr>p_links := (p_links p)[i := link_after t' (handle_resolve err eps)]\<rparr>"
    using assms(1) Resolved l(2) by simp
  show ?thesis
    unfolding p' by (rule proxy_ok_update [OF assms(3) l(1)]) (use life_resolved [OF o] Resolved in simp_all)
next
  case (Connected i err)
  then obtain t' ep rest where l: "i < length (p_links p)" "p_links p ! i = Link_Connecting t' ep rest"
    using assms(2) by (auto split: link.splits)
  with proxy_ok_link [OF assms(3) l(1)]
  have o: "link_life (t i) (resolutions i es) (attempts i es) (events_of i es) (Link_Connecting t' ep rest)"
    by (simp only: )
  have p': "p' = p\<lparr>p_links := (p_links p)[i := link_after t' (handle_connect err rest False)]\<rparr>"
    using assms(1) Connected l(2) by simp
  show ?thesis
    unfolding p' by (rule proxy_ok_update [OF assms(3) l(1)])
      (use life_connected [OF o, of err] Connected in \<open>simp_all del: link_life.simps\<close>)
next
  case (Conn_Event i ev)
  then obtain c where l: "i < length (p_links p)" "p_links p ! i = Link_Armed c" "event_ok ev c"
    using assms(2) by (auto split: link.splits)
  with proxy_ok_link [OF assms(3) l(1)]
  have o: "link_life (t i) (resolutions i es) (attempts i es) (events_of i es) (Link_Armed c)" by (simp only: )
  from assms(1) Conn_Event l obtain c' where s: "conn_step any_process_request any_on_reply ev c = Inr c'"
    and p': "p' = p\<lparr>p_links := (p_links p)[i := Link_Armed c']\<rparr>"
    by (auto simp: res_iff)
  have "link_life (t i) (resolutions i es) (attempts i es) (events_of i es @ [ev]) (Link_Armed c')"
    using o conn_run.conn_event [OF _ l(3) s] by simp
  then show ?thesis
    unfolding p' by (intro proxy_ok_update [OF assms(3) l(1)])
      (simp_all add: Conn_Event del: link_life.simps)
qed

lemma proxy_run_ok:
  fixes p :: "('ios, 'e) proxy"
  assumes "proxy_run s es p"
    and "\<forall>k. make_target (m_target_name s) (m_target_options s) (server_symbols s k) = Inr (t k)"
    and "\<forall>c. waiting_conn s = Some c \<longrightarrow> client_target c = t 0" and "started s = []"
  shows "proxy_ok t es p"
  using assms(1)
proof (induction rule: proxy_run.induct)
  case proxy_start
  have "\<forall>i. link_ok t [] ([] :: 'e link list) i" by (simp add: link_ok_def)
  then show ?case using assms(2-4) by (simp add: proxy_ok_def)
next
  case (proxy_event es p e p')
  then show ?case by (blast intro: proxy_step_ok)
qed

lemma server_new_fields:
  assumes "server_new bind_acceptor services name argv port interface host rport junk = Inr s"
  shows "\<exists>t. (\<forall>k. make_target name argv (junk k) = Inr (t k)) \<and> m_target_name s = name \<and> m_target_options s = argv
    \<and> server_symbols s = junk \<and> started s = [] \<and> (\<forall>c. waiting_conn s = Some c \<longrightarrow> client_target c = t 0)"
proof -
  let ?i = "\<lparr>io_services = services, server_endpoint = (if interface = [] then None else Some interface, word_of_int port),
    m_target_name = name, m_remote_host = host, m_remote_port = rport, m_target_options = argv,
    server_symbols = junk, waiting_conn = None, started = []\<rparr>"
  from assms have s: "start_accept ?i = Inr s"
    by (auto simp: server_new_def Let_def res_iff split: if_splits)
  then have "known_target name"
    by (auto simp: start_accept_def connection_create_def make_target_def res_iff Let_def split: list.splits if_splits)
  then obtain t where t: "\<forall>k. make_target name argv (junk k) = Inr (t k)" by (rule known_targets)
  with start_accept_fields [OF s, of t] show ?thesis by auto
qed

text \<open>C14: The life of every connection of the program, with the events of all connections and new clients
  interleaved in any way: there is one connection for each accepted client, in their order. It waits
  for the resolver; after the resolver's one answer it has made attempts, all failed, and is waiting
  for the one at the next address of the answer; or one attempt, its last, succeeded, its channels are
  armed, and it is in a state that its own socket events lead to from a fresh target of its own, having
  sent complete packets only; or it is closed, and the name could not be resolved or every address of
  the answer was tried and failed. Its sockets do nothing before it is armed.\<close>

theorem connection_life:
  assumes "server_new bind_acceptor services name argv port interface host rport junk = Inr s"
    and "proxy_run s es p" and "\<forall>k. length (junk k) = Symbol_Count"
  shows "length (p_links p) = accepted es \<and> (\<forall>i < length (p_links p). \<exists>t. make_target name argv (junk i) = Inr t
      \<and> link_life t (resolutions i es) (attempts i es) (events_of i es) (p_links p ! i)
      \<and> (\<forall>c. p_links p ! i = Link_Armed c \<longrightarrow> (\<forall>d. \<forall>out\<in>set (ch_sent (get_channel d c)). wire_packet out)))"
proof -
  obtain t where t: "\<forall>k. make_target name argv (junk k) = Inr (t k)" "m_target_name s = name" "m_target_options s = argv"
    "server_symbols s = junk" "started s = []" "\<forall>c. waiting_conn s = Some c \<longrightarrow> client_target c = t 0"
    using server_new_fields [OF assms(1)] by blast
  have ok: "proxy_ok t es p" using proxy_run_ok [OF assms(2), of t] t by simp
  have sent: "wire_packet out"
    if i: "i < length (p_links p)" and c: "p_links p ! i = Link_Armed c" and out: "out \<in> set (ch_sent (get_channel d c))"
    for i c d out
  proof -
    have r: "conn_run any_process_request any_on_reply (t i) (events_of i es) c"
      using proxy_ok_link [OF ok i] c by simp
    have "any_inv (t i)" using make_target_inv [OF spec [OF t(1)]] assms(3) by blast
    from any_target.conn_run_ok [OF r this] conn_ok_sent out show ?thesis by blast
  qed
  have "length (p_links p) = accepted es" using ok by (simp add: proxy_ok_def)
  with t(1) proxy_ok_link [OF ok] sent show ?thesis by (intro conjI allI impI) blast+
qed

theorem connection_life_witness:
  "\<exists>(s :: string server) p c. proxy_run s [Accepted False, Resolved 0 False [''a''], Accepted False, Connected 0 False,
         Conn_Event 0 (Read_Done Requests False ''+'')] p
     \<and> p_links p = [Link_Armed c, Link_Resolving Target_null]
     \<and> conn_run any_process_request any_on_reply Target_null [Read_Done Requests False ''+''] c"
proof -
  let ?init = "\<lparr>io_services = [''io''], server_endpoint = (None, 4002), m_target_name = ''null'', m_remote_host = ''localhost'',
    m_remote_port = 3002, m_target_options = [], server_symbols = \<lambda>_. replicate 13 0, waiting_conn = None, started = []\<rparr>"
  let ?s = "\<lambda>n. serving [''io''] (\<lambda>_. Target_null) ?init n" and ?t = Target_null
  let ?a = "arm_channels ?t" and ?e = "Read_Done Requests False ''+''"
  have t: "make_target ''null'' [] (replicate 13 0) = Inr ?t" by (simp add: make_target_def)
  have s: "server_new (\<lambda>_. Inr ()) [''io''] ''null'' [] 4002 [] ''localhost'' 3002 (\<lambda>_. replicate 13 0) = Inr (?s 0)"
    using server_new_ok [of "[''io'']" "\<lambda>_. Inr ()" "[]" 4002 "''null''" "[]" "\<lambda>_. replicate 13 0" "\<lambda>_. Target_null"] t
    by simp
  have acc: "handle_accept False (?s n) = Inr (?s (Suc n))" for n
    by (rule handle_accept_serving) (simp_all add: t)
  have w: "waiting_conn (?s n) \<noteq> None" "new_links (?s n) (?s (Suc n)) = [Link_Resolving ?t :: string link]" for n
    by (simp_all add: serving_def new_links_def nth_client_def)
  have r: "ready_for_packet Requests (upd_channel Requests (\<lambda>ch. ch\<lparr>ch_reading := False\<rparr>) ?a)"
    by (simp add: arm_channels_def start_read_def channel_new_def)
  obtain c where c: "conn_step any_process_request any_on_reply ?e ?a = Inr c"
    using forward_ack [OF r, of any_process_request any_on_reply]
    by (simp add: read_done_def process_data_def buffer_capacity_def)
  have ok: "event_ok ?e ?a" by (simp add: arm_channels_def start_read_def buffer_capacity_def)
  let ?p = "\<lambda>n l. \<lparr>p_server = ?s n, p_links = l\<rparr>"
  have 0: "proxy_run (?s 0) [] (?p 0 [])" by (rule proxy_start)
  have 1: "proxy_run (?s 0) [Accepted False] (?p 1 [Link_Resolving ?t :: string link])"
    using proxy_event [OF 0, of "Accepted False" "?p 1 [Link_Resolving ?t]"] w [of 0] by (simp add: acc)
  have 2: "proxy_run (?s 0) [Accepted False, Resolved 0 False [''a'']] (?p 1 [Link_Connecting ?t ''a'' []])"
    using proxy_event [OF 1, of "Resolved 0 False [''a'']" "?p 1 [Link_Connecting ?t ''a'' []]"] by (simp add: handle_resolve_def handle_connect_def)
  have 3: "proxy_run (?s 0) [Accepted False, Resolved 0 False [''a''], Accepted False]
      (?p 2 [Link_Connecting ?t ''a'' [], Link_Resolving ?t])"
    using proxy_event [OF 2, of "Accepted False" "?p 2 [Link_Connecting ?t ''a'' [], Link_Resolving ?t]"] w [of 1] by (simp add: acc numeral_2_eq_2)
  have 4: "proxy_run (?s 0) [Accepted False, Resolved 0 False [''a''], Accepted False, Connected 0 False]
      (?p 2 [Link_Armed ?a, Link_Resolving ?t])"
    using proxy_event [OF 3, of "Connected 0 False" "?p 2 [Link_Armed ?a, Link_Resolving ?t]"] by (simp add: handle_connect_def)
  have 5: "proxy_run (?s 0) [Accepted False, Resolved 0 False [''a''], Accepted False, Connected 0 False, Conn_Event 0 ?e]
      (?p 2 [Link_Armed c, Link_Resolving ?t])"
    using proxy_event [OF 4, of "Conn_Event 0 ?e" "?p 2 [Link_Armed c, Link_Resolving ?t]"] ok c by simp
  have "\<forall>k :: nat. length (replicate 13 (0 :: u64)) = Symbol_Count" by (simp add: Symbol_Count_def)
  from connection_life [OF s 5 this, THEN conjunct2, THEN spec, of 0]
  have "\<exists>t. make_target ''null'' [] (replicate 13 0) = Inr t \<and> conn_run any_process_request any_on_reply t [?e] c"
    by auto
  then have "conn_run any_process_request any_on_reply ?t [?e] c" by (simp add: t)
  with 5 show ?thesis
    by (intro exI [of _ "?s 0"] exI [of _ "?p 2 [Link_Armed c, Link_Resolving ?t]"] exI [of _ c]) simp
qed

subsection \<open>The program (proxy.cpp)\<close>

text \<open>
  The command line is taken apart by the library cxxopts, whose source is not part of the
  repository: \<open>parse_args\<close> gives the result and the arguments that are left, or throws; the values
  of the options are asked for one by one, which may throw as well. An I/O service is named by its
  number.
\<close>

record options_result =
  help_count :: nat
  port_option :: "int res"
  interface_option :: "string res"
  remote_port_option :: "int res"
  remote_host_option :: "string res"

datatype outcome =
    Help_Shown
  | Error_Shown cxx_error
  | Terminated
  | Serves "nat server"

text \<open>
  The loop that creates the I/O services and the threads that run them. A failure is given with the
  number of threads that have been created by then; \<open>std::terminate\<close> is called when one of them is
  destroyed without having been joined, so the handler at the end of \<open>main\<close> is reached only if
  there is none.
\<close>

fun start_workers :: "(nat \<Rightarrow> unit res) \<Rightarrow> nat \<Rightarrow> nat \<Rightarrow> cxx_error \<times> nat + nat list" where
  "start_workers start_thread 0 i = Inr []"
| "start_workers start_thread (Suc n) i =
     (case start_thread i of
        Inl e \<Rightarrow> Inl (e, i)
      | Inr _ \<Rightarrow>
          (case start_workers start_thread n (Suc i) of
             Inl e \<Rightarrow> Inl e
           | Inr services \<Rightarrow> Inr (i # services)))"

definition leave_try :: "nat \<Rightarrow> cxx_error \<Rightarrow> outcome" where
  "leave_try workers e = (if workers = 0 then Error_Shown e else Terminated)"

definition main ::
  "(string list \<Rightarrow> (options_result \<times> string list) res) \<Rightarrow> (nat \<Rightarrow> unit res)
     \<Rightarrow> (string option \<times> 16 word \<Rightarrow> unit res) \<Rightarrow> (nat \<Rightarrow> u64 list) \<Rightarrow> string list \<Rightarrow> outcome" where
  "main parse_args start_thread bind_acceptor junk args =
     (case parse_args args of
        Inl e \<Rightarrow> Terminated
      | Inr (result, argv) \<Rightarrow>
          if help_count result > 0 \<or> length argv < 2 then Help_Shown
          else
            let thread_num = 1 in
            case port_option result of Inl e \<Rightarrow> leave_try 0 e | Inr port \<Rightarrow>
            case interface_option result of Inl e \<Rightarrow> leave_try 0 e | Inr interface_address \<Rightarrow>
            case remote_port_option result of Inl e \<Rightarrow> leave_try 0 e | Inr remote_port \<Rightarrow>
            case remote_host_option result of Inl e \<Rightarrow> leave_try 0 e | Inr remote_host \<Rightarrow>
            let target = argv ! 1 in
            case start_workers start_thread thread_num 0 of
              Inl (e, workers) \<Rightarrow> leave_try workers e
            | Inr services \<Rightarrow>
                (case server_new bind_acceptor services target [] port interface_address
                        remote_host remote_port junk of
                   Inl e \<Rightarrow> leave_try (length services) e
                 | Inr s \<Rightarrow> Serves s))"

text \<open>C40: What becomes of a command line that \<open>cxxopts\<close> accepts, with a target and readable options: for
  a known target and an address that can be bound, the server runs; it is given none of the target's
  options, its port is the lower half-word of the number asked for, and however many clients come,
  each is served by the one I/O service and connected to the remote asked for. Otherwise the process
  is terminated: the message of the exception, which \<open>main\<close> means to print, is not, because the
  worker's thread is destroyed before the exception is handled.\<close>

theorem main_outcomes:
  assumes "parse_args args = Inr (result, argv)" and "help_count result = 0" and "2 \<le> length argv"
    and "port_option result = Inr port" and "interface_option result = Inr interface"
    and "remote_port_option result = Inr rport" and "remote_host_option result = Inr host"
    and "start_thread 0 = Inr ()"
  shows "case main parse_args start_thread bind_acceptor junk args of
      Serves s \<Rightarrow>
        known_target (argv ! 1) \<and> bind_acceptor (server_endpoint s) = Inr () \<and> m_target_options s = []
        \<and> server_endpoint s = (if interface = [] then None else Some interface, word_of_int port)
        \<and> (\<forall>n. \<exists>s'. accept_all (replicate n False) s = Inr s'
              \<and> map conn_io_service (started s') = replicate n 0
              \<and> map start_connect (started s') = replicate n (host, to_string_int rport))
    | Terminated \<Rightarrow>
        \<not> known_target (argv ! 1)
        \<or> bind_acceptor (if interface = [] then None else Some interface, word_of_int port) \<noteq> Inr ()
    | _ \<Rightarrow> False"
proof -
  let ?e = "(if interface = [] then None else Some interface, word_of_int port) :: string option \<times> 16 word"
  have m: "main parse_args start_thread bind_acceptor junk args =
      (case server_new bind_acceptor [0] (argv ! 1) [] port interface host rport junk of
         Inl e \<Rightarrow> Terminated | Inr s \<Rightarrow> Serves s)"
    using assms by (simp add: main_def leave_try_def split: sum.splits)
  show ?thesis
  proof (cases "known_target (argv ! 1) \<and> bind_acceptor ?e = Inr ()")
    case False
    then have "server_new bind_acceptor [0] (argv ! 1) [] port interface host rport junk = Inr s \<Longrightarrow> False" for s
      by (auto simp: server_new_def start_accept_def connection_create_def make_target_def res_iff Let_def split: if_splits)
    with False show ?thesis unfolding m by (auto split: sum.splits)
  next
    case True
    then have "known_target (argv ! 1)" by simp
    then obtain t where t: "\<forall>k. make_target (argv ! 1) [] (junk k) = Inr (t k)" by (rule known_targets)
    let ?s = "\<lparr>io_services = [0], server_endpoint = ?e, m_target_name = argv ! 1, m_remote_host = host,
      m_remote_port = rport, m_target_options = [], server_symbols = junk, waiting_conn = None, started = []\<rparr>"
    have s: "server_new bind_acceptor [0] (argv ! 1) [] port interface host rport junk = Inr (serving [0] t ?s 0)"
      using True t by (intro server_new_ok) simp_all
    have "accept_all (replicate n False) (serving [0] t ?s 0) = Inr (serving [0] t ?s n)" for n
      using accept_all_serving [of "[0]" ?s t n 0] t by simp
    moreover have "map conn_io_service (started (serving [0] t ?s n)) = replicate n 0"
      "map start_connect (started (serving [0] t ?s n)) = replicate n (host, to_string_int rport)" for n
      by (auto simp: serving_def nth_client_def start_connect_def intro!: nth_equalityI)
    ultimately have "\<forall>n. \<exists>s'. accept_all (replicate n False) (serving [0] t ?s 0) = Inr s'
        \<and> map conn_io_service (started s') = replicate n 0
        \<and> map start_connect (started s') = replicate n (host, to_string_int rport)"
      by blast
    moreover have "server_endpoint (serving [0] t ?s 0) = ?e" "m_target_options (serving [0] t ?s 0) = []"
      by (simp_all add: serving_def)
    ultimately show ?thesis using True unfolding m s sum.case outcome.case by metis
  qed
qed

theorem main_outcomes_witness:
  "(let result = \<lparr>help_count = 0, port_option = Inr 70000, interface_option = Inr [],
      remote_port_option = Inr 3002, remote_host_option = Inr ''localhost''\<rparr> in
    \<exists>s. main (\<lambda>args. Inr (result, args)) (\<lambda>_. Inr ()) (\<lambda>_. Inr ()) (\<lambda>_. []) [''gdbproxy'', ''null'', ''opt''] = Serves s
      \<and> m_target_options s = [] \<and> server_endpoint s = (None, 4464))
   \<and> main (\<lambda>args. Inr (\<lparr>help_count = 0, port_option = Inr 4002, interface_option = Inr [],
      remote_port_option = Inr 3002, remote_host_option = Inr ''localhost''\<rparr>, args)) (\<lambda>_. Inr ())
      (\<lambda>_. Inr ()) (\<lambda>_. []) [''gdbproxy'', ''nul''] = Terminated"
proof -
  let ?r = "\<lambda>port. \<lparr>help_count = 0, port_option = Inr port, interface_option = Inr [],
      remote_port_option = Inr 3002, remote_host_option = Inr ''localhost''\<rparr>"
  note t = main_outcomes [of "\<lambda>args. Inr (?r p, args)" _ "?r p" _ p "[]" 3002 "''localhost''" "\<lambda>_. Inr ()" "\<lambda>_. Inr ()" "\<lambda>_. []" for p]
  have a: "case main (\<lambda>args. Inr (?r 70000, args)) (\<lambda>_. Inr ()) (\<lambda>_. Inr ()) (\<lambda>_. []) [''gdbproxy'', ''null'', ''opt''] of
      Serves s \<Rightarrow> m_target_options s = [] \<and> server_endpoint s = (None, 4464) | _ \<Rightarrow> False"
    using t [of 70000 "[''gdbproxy'', ''null'', ''opt'']"] by (simp split: outcome.splits)
  have b: "case main (\<lambda>args. Inr (?r 4002, args)) (\<lambda>_. Inr ()) (\<lambda>_. Inr ()) (\<lambda>_. []) [''gdbproxy'', ''nul''] of
      Terminated \<Rightarrow> True | _ \<Rightarrow> False"
    using t [of 4002 "[''gdbproxy'', ''nul'']"] by (simp split: outcome.splits)
  from a b show ?thesis by (simp add: Let_def split: outcome.splits)
qed

end
