(* ===== verification/Spec2Isabelle.thy ===== *)
theory Spec2Isabelle
  imports Mb_System Conn_Order Conn_Failures Proxy
begin

text \<open>
  \<^bold>\<open>gdbproxy\<close>: a proxy between a GDB client and a GDB server (the \<^emph>\<open>remote\<close>). It forwards the packets
  of the remote protocol in both directions and lets a \<^emph>\<open>target\<close> answer some of the client's
  requests itself. The FreeRTOS target (\<open>mb_freertos\<close>) makes the tasks of a FreeRTOS system on a
  MicroBlaze visible as threads, by reading the kernel's task lists from the remote's memory; the
  null target forwards everything.

  \<^bold>\<open>How the parts interact.\<close> \<open>server\<close> (proxy-server.cpp) accepts clients and creates a \<open>connection\<close>
  (proxy-conn.cpp) for each, which connects to the remote and arms two channels. A channel reads
  bytes, feeds them to its \<open>gdb_packet\<close> (gdb-packet.cpp) and hands each complete packet to the
  connection's handler: \<open>on_request\<close> asks the target, \<open>on_response\<close> matches the reply with the
  oldest request and runs that request's callback. What a handler does not take is written to the
  other socket. The target (target\_mb\_freertos.cpp) queues packets through the connection's
  \<open>push_\<close> methods, with callbacks for the replies; it uses the conversions of gdb\_packets.cpp and
  the thread identifiers of threadid.h.

  \<^bold>\<open>Theories.\<close>
    \<^item> \<open>Prelude\<close>, \<open>Cstdlib\<close>: errors as values (\<open>cxx_error\<close>, \<open>'a res\<close>), characters and bytes, the contracts
      of encodings (locales \<open>codec\<close> and \<open>framed_codec\<close>); \<open>string_view\<close>, \<open>strtoull\<close>, \<open>stoull\<close>,
      \<open>stoi\<close> and \<open>snprintf\<close> as the sources use them.
    \<^item> \<open>Gdb_Packet\<close>: \<open>gdb_packet\<close> and its \<open>parse\<close>, \<open>finalize\<close>, \<open>reset\<close>; the class invariant,
      independence of the cut of the input, the grammar with run-length coding, what \<open>parse\<close> fails on.
    \<^item> \<open>Gdb_Packets\<close>: \<open>hex2bin\<close>, \<open>bin2hex\<close>, the memory read request and its reply; hex2bin.cpp.
    \<^item> \<open>Threadid\<close>: \<open>threadid<uint32_t>\<close>; \<open>Std_Map\<close>: \<open>std::map\<close> and the locale \<open>ordered_map\<close>.
    \<^item> \<open>Target\<close>: the interface of a target and the locale \<open>target_contract\<close>; the null target.
    \<^item> \<open>Mb_Registers\<close>, \<open>Mb_State\<close>, \<open>Mb_Threads\<close>, \<open>Mb_Requests\<close>: the FreeRTOS target, in the order tables,
      state and thread numbers, thread update, request and reply handlers.
    \<^item> \<open>Mb_Contract\<close>: its invariant, kept by every handler and callback, and the interpretation of
      \<open>target_contract\<close>. \<open>Mb_Behaviour\<close>: reachable states. \<open>Mb_Symbols\<close>: the symbol lookup.
      \<open>Mb_Stop\<close>: resume packets, fields of stop replies. \<open>Mb_Queries\<close>: thread numbers and thread packets.
      \<open>Mb_Register_List\<close>: the register list. \<open>Mb_Walk\<close>: the whole thread update against a memory.
      \<open>Mb_Stop_Reply\<close>: stop replies, with and without the thread update in front of them.
    \<^item> \<open>Connection\<close>: channels, transfers, handlers, events and runs. \<open>Conn_Safety\<close>: the connection's
      invariant, proved in \<open>target_contract\<close>. \<open>Conn_Behaviour\<close>: cuts of the stream, forwarding of
      everything a peer may send (\<open>wire_item\<close>), matching of replies. \<open>Conn_Failures\<close>: lost requests and failures.
    \<^item> \<open>Temporal\<close>: what every continuation of a step relation eventually reaches. \<open>Closed_System\<close>: a
      connection, a client and a remote that answers, as a step relation; its stages, the rule of
      progress over them (\<open>stage_inevitable\<close>), and from it dialogues of the target with the remote and
      conversations of the client with the target. \<open>Mb_System\<close>: what the FreeRTOS target's client
      eventually gets. \<open>Conn_Order\<close>: the order in which the client is answered.
    \<^item> \<open>Server\<close>: accepting clients and connecting to the remote. \<open>Proxy\<close>: all connections of a server
      with their events interleaved, the life of each of them, and \<open>main\<close>.

  \<^bold>\<open>Correspondence.\<close> Definitions have the names of the functions and members they model; a lambda
  passed as a callback is a constructor of \<open>mb_cb\<close> with its captures and, as a function, \<open>cb_\<close> and the
  name of the step it belongs to. C++ integers are words of their width, characters are signed.
  Every exception, failed assertion and undefined access is an \<open>Inl\<close> result. References into
  containers carry the container's generation (\<open>lists_gen\<close>, \<open>info_gen\<close>) or the number of the queue
  element (\<open>tr_id\<close>), so that a dangling one is noticed. Asynchronous operations complete in events.

  \<^bold>\<open>Termination and fuel.\<close> The parser and the loops over packets, fields and endpoints recurse on
  what is left of their input. The thread update is a chain of requests and replies; \<open>serve\<close> runs it
  with fuel, and \<open>thread_update\<close> shows that for every memory some fuel is enough and more changes
  nothing: each list is walked at most as often as its length field says.

  \<^bold>\<open>The environment.\<close> The remote is a function from requests to replies with the hypothesis
  \<open>answers_reads\<close>: a memory read is answered with the bytes of a memory. \<open>event_ok\<close> says what sockets
  do: reads fill at most the buffer, writes complete in order, without error only if complete.

  \<^bold>\<open>The closed system.\<close> \<open>sys_exec\<close> adds both peers to a connection. A packet that was handed to a socket
  reaches its receiver at any time, before or after the completion handler of the write has run; the
  remote then answers (with or without an acknowledgement), the client may acknowledge or go on; the
  bytes on their way are read in pieces of any size. \<open>orderly\<close> leaves out two kinds of steps: reading
  bytes of the remote while the completion handler of a write to the remote is still to run, after
  which that handler's reference may dangle (\<open>early_reply_dangles\<close>; ASIO does not exclude it), and a
  read that fills the buffer (\<open>read_failures\<close>). That a request is answered means that in every
  orderly schedule a finite number of steps leads there, and none of them fails (\<open>inevitable\<close>). A
  client that acknowledges while a request is outstanding is left out (\<open>ack_drops_request\<close>), and so
  are replies with run-length coding (\<open>rle_forward_checksum\<close>).

  \<^bold>\<open>The program.\<close> Connections of one server share the thread of its one I/O service: \<open>proxy_step\<close>
  interleaves whole events. \<open>connection_life\<close> gives the state of each connection by what has
  happened to it.

  \<^bold>\<open>Simplifications.\<close> In \<open>on_response\<close> the code reads a flag of a queue element after removing it; the
  model reads the flag the element had. Writes are taken over by the socket as whole packets when
  they are started, although the code starts them while others are pending. \<open>errno\<close> is taken to be
  clear before \<open>strtoull\<close>. Diagnostics and capacities are left out.

  \<^bold>\<open>Not modelled.\<close> The library cxxopts, an empty directory in the repository: \<open>main\<close> takes its result as an
  argument. The resolver, the sockets and the acceptor of ASIO are events and arguments. A pool of
  several I/O services would run handlers of different connections in parallel; the program makes
  one. Log output.
\<close>

end
